theory Spec2Isabelle
  imports Main "HOL-Library.Word"
begin

section \<open>get-secretmanager-secrets: the action's entry point (src/main.ts)\<close>

text \<open>
  The action reads its inputs, asks the secret store for every referenced secret, registers
  the lines of each value with the runner's log redaction, and publishes the value as an
  output and, on request, as an environment variable. This theory embeds \<open>main.ts\<close>:
  \<open>validateSubscription\<close> and \<open>run\<close>. What the file imports and asks for an answer (the
  toolkit's input reader, the HTTP client, the store client, the reference parser, the
  boolean parser and the error renderer) is a parameter of the model, so every theorem
  holds whatever those collaborators answer. The calls by which the program reports or
  publishes (the toolkit's \<open>error\<close>, \<open>info\<close>, \<open>setSecret\<close>, \<open>setOutput\<close>,
  \<open>exportVariable\<close> and \<open>setFailed\<close>) are recorded one by one. Of these, \<open>setOutput\<close> and
  \<open>exportVariable\<close> write to files named in the environment of the process and throw
  when they cannot; whether they do is a parameter as well. The others print a line and are
  taken not to throw.
\<close>

subsection \<open>Strings and numbers of the host language\<close>

text \<open>
  A JavaScript string is a sequence of 16-bit code units and \<open>length\<close> counts code units.
  \<open>utf16\<close> writes an ASCII (or Latin-1) literal as such a sequence.
\<close>

type_synonym js_string = "16 word list"

definition utf16 :: "string \<Rightarrow> js_string" where
  "utf16 s = map (\<lambda>c. of_nat (of_char c)) s"

definition CR :: "16 word" where
  "CR = 0x0D"

definition LF :: "16 word" where
  "LF = 0x0A"

text \<open>
  A JavaScript number as far as this program uses one: \<open>parseInt\<close> returns either \<open>NaN\<close> or
  an integer. The program only compares the number with a string length; a length is below
  \<open>2 ^ 53\<close>, rounding an integer to the nearest double is monotone and leaves every integer
  up to \<open>2 ^ 53\<close> alone, so the comparison with the exact integer has the same result as the
  comparison with the double. \<open>-0\<close> compares like \<open>0\<close>.
\<close>

datatype number = NaN | Integer int

text \<open>\<open>line.length >= minMaskLength\<close>: every comparison with \<open>NaN\<close> is false.\<close>

fun length_ge :: "js_string \<Rightarrow> number \<Rightarrow> bool" where
  "length_ge line NaN = False"
| "length_ge line (Integer n) = (n \<le> int (length line))"

text \<open>
  The white space and line terminators that \<open>parseInt\<close> skips in front of the number
  (ECMAScript \<open>StrWhiteSpaceChar\<close>).
\<close>

definition isWhiteSpace :: "16 word \<Rightarrow> bool" where
  "isWhiteSpace c =
     (c = 0x09 \<or> c = 0x0A \<or> c = 0x0B \<or> c = 0x0C \<or> c = 0x0D \<or> c = 0x20 \<or> c = 0xA0
      \<or> c = 0x1680 \<or> (0x2000 \<le> c \<and> c \<le> 0x200A) \<or> c = 0x2028 \<or> c = 0x2029
      \<or> c = 0x202F \<or> c = 0x205F \<or> c = 0x3000 \<or> c = 0xFEFF)"

definition digitValue :: "16 word \<Rightarrow> nat option" where
  "digitValue c =
     (if 0x30 \<le> c \<and> c \<le> 0x39 then Some (unat c - 48)
      else if 0x61 \<le> c \<and> c \<le> 0x7A then Some (unat c - 87)
      else if 0x41 \<le> c \<and> c \<le> 0x5A then Some (unat c - 55)
      else None)"

definition isRadixDigit :: "nat \<Rightarrow> 16 word \<Rightarrow> bool" where
  "isRadixDigit R c = (case digitValue c of None \<Rightarrow> False | Some d \<Rightarrow> d < R)"

definition mathInt :: "nat \<Rightarrow> js_string \<Rightarrow> nat" where
  "mathInt R Z = foldl (\<lambda>a c. a * R + (case digitValue c of None \<Rightarrow> 0 | Some d \<Rightarrow> d)) 0 Z"

text \<open>
  \<open>parseInt(string)\<close> with no radix: skip leading white space, read a sign, switch to
  radix 16 after \<open>0x\<close> or \<open>0X\<close>, read the longest run of digits; no digit gives \<open>NaN\<close>.
\<close>

definition parseInt :: "js_string \<Rightarrow> number" where
  "parseInt inputString =
     (let S = dropWhile isWhiteSpace inputString;
          sign = (if S \<noteq> [] \<and> hd S = 0x2D then - 1 else (1::int));
          S1 = (if S \<noteq> [] \<and> (hd S = 0x2B \<or> hd S = 0x2D) then tl S else S);
          hex = (2 \<le> length S1 \<and> S1 ! 0 = 0x30 \<and> (S1 ! 1 = 0x78 \<or> S1 ! 1 = 0x58));
          R = (if hex then 16 else 10);
          S2 = (if hex then drop 2 S1 else S1);
          Z = takeWhile (isRadixDigit R) S2
      in if Z = [] then NaN else Integer (sign * int (mathInt R Z)))"

text \<open>
  \<open>value.split(/\r\n|\r|\n/g)\<close>: the string is cut at every line break, a carriage return
  followed by a line feed being one break (the first alternative of the pattern wins). The
  pieces between the breaks are returned in order, the empty ones too; a string with no
  break is returned whole, so the result is never empty.
\<close>

fun split :: "js_string \<Rightarrow> js_string list" where
  "split [] = [[]]"
| "split (c # cs) =
     (if c = CR then
        (case cs of
           [] \<Rightarrow> [] # split cs
         | d # ds \<Rightarrow> if d = LF then [] # split ds else [] # split cs)
      else if c = LF then [] # split cs
      else (case split cs of
              [] \<Rightarrow> [[c]]
            | line # lines \<Rightarrow> (c # line) # lines))"

subsection \<open>The collaborators\<close>

text \<open>
  A value thrown by a collaborator. The program never inspects one; it only hands it to
  \<open>errorMessage\<close>. The payload identifies the thrown value.
\<close>

datatype thrown = Thrown js_string

text \<open>
  A secret reference as the parser returns it. The program reads the field \<open>output\<close>
  only; whatever else a reference carries lives in the record's extension.
\<close>

record Reference =
  "output" :: js_string

text \<open>
  The outcome of the subscription request: the promise resolves, or it rejects with an
  error \<open>err\<close>, of which the program looks at \<open>isAxiosError(err)\<close> and at
  \<open>err.response?.status\<close> (\<open>None\<close> when there is no response or no status).
\<close>

datatype axios_result = Resolved | Rejected bool "nat option"

text \<open>
  The world one run meets. \<open>getInput name required\<close> is the toolkit's input reader,
  \<open>parseBoolean\<close> and \<open>errorMessage\<close> come from the utility library, \<open>newClient\<close> is
  the store client's constructor, \<open>parseSecretsRefs\<close> the reference parser. The client
  is stateful: \<open>accessSecret\<close> takes the client and returns it with the result, so two
  requests for the same reference may answer differently. The toolkit is stateful too
  (it reads and changes the environment of the process): \<open>core_state\<close> is its state when
  the run begins, and \<open>core_setOutput\<close> and \<open>core_exportVariable\<close> take the state and
  return it with what the call threw, or with \<open>None\<close> when the call returned.
\<close>

record ('c, 'r, 't) world =
  axios_get :: axios_result
  getInput :: "string \<Rightarrow> bool \<Rightarrow> thrown + js_string"
  parseBoolean :: "js_string \<Rightarrow> thrown + bool"
  errorMessage :: "thrown \<Rightarrow> js_string"
  newClient :: "js_string \<Rightarrow> thrown + 'c"
  parseSecretsRefs :: "js_string \<Rightarrow> thrown + 'r Reference_scheme list"
  accessSecret :: "'c \<Rightarrow> 'r Reference_scheme \<Rightarrow> js_string \<Rightarrow> (thrown + js_string) \<times> 'c"
  core_state :: 't
  core_setOutput :: "'t \<Rightarrow> js_string \<Rightarrow> js_string \<Rightarrow> thrown option \<times> 't"
  core_exportVariable :: "'t \<Rightarrow> js_string \<Rightarrow> js_string \<Rightarrow> thrown option \<times> 't"

subsection \<open>What a run does to its surroundings\<close>

text \<open>
  Every call that leaves the program is recorded when it is made, in the order of the
  calls: the subscription request and the store requests with their outcomes, and the
  toolkit's \<open>error\<close>, \<open>info\<close>, \<open>setSecret\<close>, \<open>setOutput\<close>, \<open>exportVariable\<close> and
  \<open>setFailed\<close>. A call of \<open>setOutput\<close> or \<open>exportVariable\<close> is recorded whether it returns
  or throws.
\<close>

datatype 'r event =
    AxiosGet axios_result
  | ErrorLog js_string
  | Info js_string
  | AccessSecret "'r Reference_scheme" js_string "thrown + js_string"
  | SetSecret js_string
  | SetOutput js_string js_string
  | ExportVariable js_string js_string
  | SetFailed js_string

text \<open>
  The state of the process: the calls made so far and \<open>process.exitCode\<close>, the status
  the process ends with when it ends by itself.
\<close>

record 'r state =
  trace :: "'r event list"
  exitCode :: nat

definition initial :: "'r state" where
  "initial = \<lparr>trace = [], exitCode = 0\<rparr>"

definition emit :: "'r event \<Rightarrow> 'r state \<Rightarrow> 'r state" where
  "emit ev s = s\<lparr>trace := trace s @ [ev]\<rparr>"

definition error_log :: "js_string \<Rightarrow> 'r state \<Rightarrow> 'r state" where
  "error_log message = emit (ErrorLog message)"

definition info :: "js_string \<Rightarrow> 'r state \<Rightarrow> 'r state" where
  "info message = emit (Info message)"

definition setSecret :: "js_string \<Rightarrow> 'r state \<Rightarrow> 'r state" where
  "setSecret secret = emit (SetSecret secret)"

text \<open>
  \<open>setOutput\<close> (called in line 84) and \<open>exportVariable\<close> (line 87): the call is made, and
  it either returns, leaving the toolkit in a new state (\<open>Inr\<close>), or throws (\<open>Inl\<close>). What
  it throws goes to the \<open>catch\<close> of \<open>run\<close>, as what a store request throws.
\<close>

definition setOutput ::
  "('c, 'r, 't) world \<Rightarrow> js_string \<Rightarrow> js_string \<Rightarrow> 't \<Rightarrow> 'r state \<Rightarrow> 'r state \<times> (thrown + 't)" where
  "setOutput w name val tk s =
     (emit (SetOutput name val) s,
      case core_setOutput w tk name val of (None, tk') \<Rightarrow> Inr tk' | (Some err, tk') \<Rightarrow> Inl err)"

definition exportVariable ::
  "('c, 'r, 't) world \<Rightarrow> js_string \<Rightarrow> js_string \<Rightarrow> 't \<Rightarrow> 'r state \<Rightarrow> 'r state \<times> (thrown + 't)" where
  "exportVariable w name val tk s =
     (emit (ExportVariable name val) s,
      case core_exportVariable w tk name val of (None, tk') \<Rightarrow> Inr tk' | (Some err, tk') \<Rightarrow> Inl err)"

text \<open>\<open>setFailed\<close> sets \<open>process.exitCode\<close> to 1 and reports the message.\<close>

definition setFailed :: "js_string \<Rightarrow> 'r state \<Rightarrow> 'r state" where
  "setFailed message s = emit (SetFailed message) (s\<lparr>exitCode := 1\<rparr>)"

text \<open>How a piece of the program ends: it returns, it throws, or it ends the process.\<close>

datatype 'a outcome = Done 'a | Threw thrown | Exit nat

subsection \<open>validateSubscription\<close>

text \<open>
  Lines 33 to 46. The request is made with a timeout of 3000 ms; running into it is one of
  the rejections. The \<open>catch\<close> takes every rejection, so the function never throws: on
  HTTP status 403 it writes the error line and ends the process with \<open>process.exit(1)\<close>,
  otherwise it writes the informational line and returns.
\<close>

definition validateSubscription :: "('c, 'r, 't) world \<Rightarrow> 'r state \<Rightarrow> 'r state \<times> unit outcome" where
  "validateSubscription w s =
     (let s1 = emit (AxiosGet (axios_get w)) s in
      case axios_get w of
        Resolved \<Rightarrow> (s1, Done ())
      | Rejected isAxiosError status \<Rightarrow>
          if isAxiosError \<and> status = Some 403 then
            (error_log (utf16 ''Subscription is not valid. Reach out to support@stepsecurity.io'') s1,
             Exit 1)
          else
            (info (utf16 ''Timeout or API not reachable. Continuing to next step.'') s1,
             Done ()))"

subsection \<open>run\<close>

text \<open>The values that lines 55 to 67 of \<open>run\<close> bind before the loop.\<close>

record ('c, 'r) config =
  minMaskLength :: number
  exportEnvironment :: bool
  encoding :: js_string
  client :: 'c
  secretsRefs :: "'r Reference_scheme list"

text \<open>
  Lines 55 to 67, in the order of the calls; the first call that throws ends the block.
  \<open>parseInt\<close> is applied to the text of \<open>min_mask_length\<close> when it is read (line 57); it
  never throws, so its result is simply kept. An empty \<open>encoding\<close> stands for \<open>utf8\<close>.
  None of these calls is recorded: they read, they do not publish.
\<close>

definition read_inputs :: "('c, 'r, 't) world \<Rightarrow> thrown + ('c, 'r) config" where
  "read_inputs w =
     (case getInput w ''universe'' False of Inl err \<Rightarrow> Inl err | Inr universe \<Rightarrow>
     (case getInput w ''secrets'' True of Inl err \<Rightarrow> Inl err | Inr secretsInput \<Rightarrow>
     (case getInput w ''min_mask_length'' False of Inl err \<Rightarrow> Inl err | Inr mml \<Rightarrow>
     (case getInput w ''export_to_environment'' False of Inl err \<Rightarrow> Inl err | Inr ete \<Rightarrow>
     (case parseBoolean w ete of Inl err \<Rightarrow> Inl err | Inr exportEnv \<Rightarrow>
     (case getInput w ''encoding'' False of Inl err \<Rightarrow> Inl err | Inr enc \<Rightarrow>
     (case newClient w universe of Inl err \<Rightarrow> Inl err | Inr cl \<Rightarrow>
     (case parseSecretsRefs w secretsInput of Inl err \<Rightarrow> Inl err | Inr refs \<Rightarrow>
        Inr \<lparr>minMaskLength = parseInt mml,
             exportEnvironment = exportEnv,
             encoding = (if enc = [] then utf16 ''utf8'' else enc),
             client = cl,
             secretsRefs = refs\<rparr>))))))))"

text \<open>Lines 75 to 82: the callback of \<open>forEach\<close>, run on every line in order.\<close>

definition mask_lines :: "number \<Rightarrow> js_string \<Rightarrow> 'r state \<Rightarrow> 'r state" where
  "mask_lines minLen val s =
     foldl (\<lambda>s line. if line \<noteq> [] \<and> length_ge line minLen then setSecret line s else s)
       s (split val)"

text \<open>
  Lines 70 to 89: the loop over the references. A request or a toolkit call that throws
  leaves the loop with the thrown value; the client and the toolkit go from one call to
  the next.
\<close>

fun for_refs ::
  "('c, 'r, 't) world \<Rightarrow> number \<Rightarrow> bool \<Rightarrow> js_string \<Rightarrow> 'r Reference_scheme list \<Rightarrow> 'c \<Rightarrow> 't
     \<Rightarrow> 'r state \<Rightarrow> 'r state \<times> unit outcome" where
  "for_refs w minLen exportEnv enc [] cl tk s = (s, Done ())"
| "for_refs w minLen exportEnv enc (ref # refs) cl tk s =
     (case accessSecret w cl ref enc of
        (Inl err, cl') \<Rightarrow> (emit (AccessSecret ref enc (Inl err)) s, Threw err)
      | (Inr val, cl') \<Rightarrow>
          (let s1 = emit (AccessSecret ref enc (Inr val)) s;
               s2 = mask_lines minLen val s1
           in case setOutput w (output ref) val tk s2 of
                (s3, Inl err) \<Rightarrow> (s3, Threw err)
              | (s3, Inr tk1) \<Rightarrow>
                  if exportEnv then
                    (case exportVariable w (output ref) val tk1 s3 of
                       (s4, Inl err) \<Rightarrow> (s4, Threw err)
                     | (s4, Inr tk2) \<Rightarrow> for_refs w minLen exportEnv enc refs cl' tk2 s4)
                  else for_refs w minLen exportEnv enc refs cl' tk1 s3))"

definition failure_prefix :: js_string where
  "failure_prefix = utf16 ''step-security/get-secretmanager-secrets failed with: ''"

text \<open>
  The body of the \<open>try\<close> block, lines 54 to 89: the subscription check, the inputs, the
  loop. What is thrown in it goes to the \<open>catch\<close>; \<open>process.exit\<close> does not.
\<close>

definition try_block :: "('c, 'r, 't) world \<Rightarrow> 'r state \<Rightarrow> 'r state \<times> unit outcome" where
  "try_block w s =
     (case validateSubscription w s of
        (s1, Exit n) \<Rightarrow> (s1, Exit n)
      | (s1, Threw err) \<Rightarrow> (s1, Threw err)
      | (s1, Done u) \<Rightarrow>
          (case read_inputs w of
             Inl err \<Rightarrow> (s1, Threw err)
           | Inr cfg \<Rightarrow>
               for_refs w (minMaskLength cfg) (exportEnvironment cfg) (encoding cfg)
                 (secretsRefs cfg) (client cfg) (core_state w) s1))"

text \<open>
  How the process ends: \<open>process.exit(n)\<close> ends it at once with status \<open>n\<close>; otherwise
  \<open>run\<close> returns and the process ends with \<open>process.exitCode\<close>.
\<close>

datatype completion = Returned | Exited nat

text \<open>Lines 52 to 94: the \<open>catch\<close> renders what was thrown and reports it with \<open>setFailed\<close>.\<close>

definition run :: "('c, 'r, 't) world \<Rightarrow> 'r state \<times> completion" where
  "run w =
     (case try_block w initial of
        (s, Done u) \<Rightarrow> (s, Returned)
      | (s, Threw err) \<Rightarrow> (setFailed (failure_prefix @ errorMessage w err) s, Returned)
      | (s, Exit n) \<Rightarrow> (s, Exited n))"

text \<open>The exit status of the process after a run.\<close>

definition exit_status :: "'r state \<times> completion \<Rightarrow> nat" where
  "exit_status r = (case snd r of Exited n \<Rightarrow> n | Returned \<Rightarrow> exitCode (fst r))"

section \<open>Observing a run\<close>

text \<open>
  The definitions of this section are not part of the program: they are the vocabulary in
  which the properties of a run are stated.
\<close>

subsection \<open>Readings of the calls made\<close>

text \<open>The store requests that succeeded, each with the value it returned.\<close>

fun fetched :: "'r event list \<Rightarrow> ('r Reference_scheme \<times> js_string) list" where
  "fetched [] = []"
| "fetched (AccessSecret r enc (Inr v) # t) = (r, v) # fetched t"
| "fetched (ev # t) = fetched t"

text \<open>The references the store was asked for, whether it answered or not.\<close>

fun requested :: "'r event list \<Rightarrow> 'r Reference_scheme list" where
  "requested [] = []"
| "requested (AccessSecret r enc res # t) = r # requested t"
| "requested (ev # t) = requested t"

text \<open>The strings handed to \<open>setSecret\<close>.\<close>

fun registered :: "'r event list \<Rightarrow> js_string list" where
  "registered [] = []"
| "registered (SetSecret line # t) = line # registered t"
| "registered (ev # t) = registered t"

text \<open>The names and values handed to \<open>setOutput\<close> and to \<open>exportVariable\<close>.\<close>

fun set_outputs :: "'r event list \<Rightarrow> (js_string \<times> js_string) list" where
  "set_outputs [] = []"
| "set_outputs (SetOutput n v # t) = (n, v) # set_outputs t"
| "set_outputs (ev # t) = set_outputs t"

fun exported :: "'r event list \<Rightarrow> (js_string \<times> js_string) list" where
  "exported [] = []"
| "exported (ExportVariable n v # t) = (n, v) # exported t"
| "exported (ev # t) = exported t"

text \<open>Whether a call is a call of \<open>setSecret\<close>.\<close>

fun is_setSecret :: "'r event \<Rightarrow> bool" where
  "is_setSecret (SetSecret line) = True"
| "is_setSecret ev = False"

text \<open>
  Whether the run was ended by a call of \<open>setOutput\<close> that threw: the last call but one
  is a \<open>setOutput\<close> and the last is the failure report. (After a \<open>setOutput\<close> that
  returns, \<open>run\<close> goes on with \<open>exportVariable\<close> or the next request, or returns without
  a report.)
\<close>

definition output_threw :: "'r event list \<Rightarrow> bool" where
  "output_threw t =
     (case rev t of
        SetFailed msg # SetOutput n v # earlier \<Rightarrow> True
      | _ \<Rightarrow> False)"

text \<open>The same for \<open>exportVariable\<close>.\<close>

definition export_threw :: "'r event list \<Rightarrow> bool" where
  "export_threw t =
     (case rev t of
        SetFailed msg # ExportVariable n v # earlier \<Rightarrow> True
      | _ \<Rightarrow> False)"

text \<open>
  The names and values of the \<open>setOutput\<close> calls that returned, and of the
  \<open>exportVariable\<close> calls that returned: the outputs that are set and the environment
  variables that are bound for the steps that follow.
\<close>

definition bound_outputs :: "'r event list \<Rightarrow> (js_string \<times> js_string) list" where
  "bound_outputs t = (if output_threw t then butlast (set_outputs t) else set_outputs t)"

definition bound_variables :: "'r event list \<Rightarrow> (js_string \<times> js_string) list" where
  "bound_variables t = (if export_threw t then butlast (exported t) else exported t)"

text \<open>
  The runner's outputs after the calls made, on the reading that every \<open>setOutput\<close> that
  returns binds its name to its value, in place of whatever the name was bound to, and
  that one that throws binds nothing. This is what the runner is taken to do; it is not
  part of the program.
\<close>

definition bind_output ::
  "(js_string \<rightharpoonup> js_string) \<Rightarrow> js_string \<times> js_string \<Rightarrow> (js_string \<rightharpoonup> js_string)" where
  "bind_output m nv = m(fst nv \<mapsto> snd nv)"

definition outputs_after :: "'r event list \<Rightarrow> (js_string \<rightharpoonup> js_string)" where
  "outputs_after t = foldl bind_output Map.empty (bound_outputs t)"

subsection \<open>The shape of one cycle\<close>

text \<open>The name and value under which a fetched reference is published.\<close>

definition published :: "'r Reference_scheme \<times> js_string \<Rightarrow> js_string \<times> js_string" where
  "published rv = (output (fst rv), snd rv)"

text \<open>The lines of a value that are to be registered: not empty and long enough.\<close>

definition masked :: "number \<Rightarrow> js_string \<Rightarrow> js_string list" where
  "masked minLen val = filter (\<lambda>line. line \<noteq> [] \<and> length_ge line minLen) (split val)"

text \<open>
  The calls of one fetch-mask-publish cycle for a reference and the value the store
  returned for it: the request, one registration for each line to be masked, the output,
  and the environment variable when exporting is on.
\<close>

definition cycle ::
  "number \<Rightarrow> bool \<Rightarrow> js_string \<Rightarrow> 'r Reference_scheme \<times> js_string \<Rightarrow> 'r event list" where
  "cycle minLen exportEnv enc rv =
     AccessSecret (fst rv) enc (Inr (snd rv)) # map SetSecret (masked minLen (snd rv))
       @ SetOutput (output (fst rv)) (snd rv)
       # (if exportEnv then [ExportVariable (output (fst rv)) (snd rv)] else [])"

text \<open>
  The calls the loop makes and how it ends, as a function of where it starts: the state
  is left out, the client and the toolkit are followed. A cycle that a throwing
  \<open>setOutput\<close> cuts short is a cycle without the export.
\<close>

fun loop_events ::
  "('c, 'r, 't) world \<Rightarrow> number \<Rightarrow> bool \<Rightarrow> js_string \<Rightarrow> 'r Reference_scheme list \<Rightarrow> 'c \<Rightarrow> 't
     \<Rightarrow> 'r event list \<times> unit outcome" where
  "loop_events w minLen exportEnv enc [] cl tk = ([], Done ())"
| "loop_events w minLen exportEnv enc (ref # refs) cl tk =
     (case accessSecret w cl ref enc of
        (Inl err, cl') \<Rightarrow> ([AccessSecret ref enc (Inl err)], Threw err)
      | (Inr val, cl') \<Rightarrow>
          (case core_setOutput w tk (output ref) val of
             (Some err, tk1) \<Rightarrow> (cycle minLen False enc (ref, val), Threw err)
           | (None, tk1) \<Rightarrow>
               if exportEnv then
                 (case core_exportVariable w tk1 (output ref) val of
                    (Some err, tk2) \<Rightarrow> (cycle minLen True enc (ref, val), Threw err)
                  | (None, tk2) \<Rightarrow>
                      (case loop_events w minLen exportEnv enc refs cl' tk2 of
                         (evs, res) \<Rightarrow> (cycle minLen exportEnv enc (ref, val) @ evs, res)))
               else
                 (case loop_events w minLen exportEnv enc refs cl' tk1 of
                    (evs, res) \<Rightarrow> (cycle minLen exportEnv enc (ref, val) @ evs, res))))"

text \<open>
  Which call of the loop throws, if any: the outcome of the loop says what was thrown, this
  says by which call.
\<close>

datatype thrower = ByAccessSecret | BySetOutput | ByExportVariable

fun thrown_by ::
  "('c, 'r, 't) world \<Rightarrow> bool \<Rightarrow> js_string \<Rightarrow> 'r Reference_scheme list \<Rightarrow> 'c \<Rightarrow> 't
     \<Rightarrow> thrower option" where
  "thrown_by w exportEnv enc [] cl tk = None"
| "thrown_by w exportEnv enc (ref # refs) cl tk =
     (case accessSecret w cl ref enc of
        (Inl err, cl') \<Rightarrow> Some ByAccessSecret
      | (Inr val, cl') \<Rightarrow>
          (case core_setOutput w tk (output ref) val of
             (Some err, tk1) \<Rightarrow> Some BySetOutput
           | (None, tk1) \<Rightarrow>
               if exportEnv then
                 (case core_exportVariable w tk1 (output ref) val of
                    (Some err, tk2) \<Rightarrow> Some ByExportVariable
                  | (None, tk2) \<Rightarrow> thrown_by w exportEnv enc refs cl' tk2)
               else thrown_by w exportEnv enc refs cl' tk1))"

text \<open>
  The shapes the calls of the loop can have: complete cycles for the first references, one
  for each value fetched, and then nothing more when the loop ran through, or else the
  request that threw, or the cycle cut short by a \<open>setOutput\<close> that threw, or the cycle
  whose \<open>exportVariable\<close> threw.
\<close>

definition shaped ::
  "number \<Rightarrow> bool \<Rightarrow> js_string \<Rightarrow> 'r Reference_scheme list \<Rightarrow> thrower option
     \<Rightarrow> 'r event list \<Rightarrow> unit outcome \<Rightarrow> bool" where
  "shaped minLen exportEnv enc refs who evs res =
     (\<exists>vs. length vs \<le> length refs \<and>
        ((who = None \<and> res = Done () \<and> length vs = length refs \<and>
            evs = concat (map (cycle minLen exportEnv enc) (zip refs vs)))
         \<or> (\<exists>err. who = Some ByAccessSecret \<and> res = Threw err \<and> length vs < length refs \<and>
            evs = concat (map (cycle minLen exportEnv enc) (zip refs vs))
                  @ [AccessSecret (refs ! length vs) enc (Inl err)])
         \<or> (\<exists>err v. who = Some BySetOutput \<and> res = Threw err \<and> length vs < length refs \<and>
            evs = concat (map (cycle minLen exportEnv enc) (zip refs vs))
                  @ cycle minLen False enc (refs ! length vs, v))
         \<or> (\<exists>err v. who = Some ByExportVariable \<and> res = Threw err \<and> length vs < length refs \<and>
            exportEnv \<and>
            evs = concat (map (cycle minLen exportEnv enc) (zip refs vs))
                  @ cycle minLen True enc (refs ! length vs, v))))"

subsection \<open>The subscription check\<close>

text \<open>The one outcome of the subscription request that ends the run: HTTP status 403.\<close>

definition forbidden :: "axios_result \<Rightarrow> bool" where
  "forbidden r = (r = Rejected True (Some 403))"

text \<open>The calls \<open>validateSubscription\<close> makes at the start of a run.\<close>

definition preflight :: "('c, 'r, 't) world \<Rightarrow> 'r event list" where
  "preflight w = trace (fst (validateSubscription w initial))"

subsection \<open>Line breaks\<close>

text \<open>
  Two functions that say what splitting at line breaks means without cutting anything:
  \<open>line_feeds\<close> writes every line break of a string (\<open>\r\n\<close>, \<open>\r\<close> or \<open>\n\<close>, the longest
  first) as one line feed, and \<open>join_lines\<close> puts lines together again, a line feed between
  two neighbours.
\<close>

fun line_feeds :: "js_string \<Rightarrow> js_string" where
  "line_feeds (c # d # cs) =
     (if c = CR \<and> d = LF then LF # line_feeds cs
      else if c = CR then LF # line_feeds (d # cs)
      else c # line_feeds (d # cs))"
| "line_feeds [c] = [if c = CR then LF else c]"
| "line_feeds [] = []"

fun join_lines :: "js_string list \<Rightarrow> js_string" where
  "join_lines [] = []"
| "join_lines [line] = line"
| "join_lines (line # lines) = line @ LF # join_lines lines"

subsection \<open>Worlds to run the program in\<close>

text \<open>The world \<open>w\<close> with another text in the input \<open>min_mask_length\<close>.\<close>

definition with_min_mask_length :: "js_string \<Rightarrow> ('c, 'r, 't) world \<Rightarrow> ('c, 'r, 't) world" where
  "with_min_mask_length str w =
     w\<lparr>getInput := (\<lambda>name required.
          if name = ''min_mask_length'' then Inr str else getInput w name required)\<rparr>"

text \<open>
  A store that gives its answers in the order of the requests, whatever is requested; the
  client counts the requests.
\<close>

definition store_answers ::
  "(thrown + js_string) list \<Rightarrow> nat \<Rightarrow> 'r Reference_scheme \<Rightarrow> js_string
     \<Rightarrow> (thrown + js_string) \<times> nat" where
  "store_answers answers n ref enc =
     (if n < length answers then answers ! n else Inl (Thrown (utf16 ''not found'')), Suc n)"

text \<open>
  A toolkit for examples, written after the one of the runner (the package
  \<open>@actions/core\<close>, which is not part of the repository). \<open>setOutput\<close> appends to the
  file named by the environment variable \<open>GITHUB_OUTPUT\<close> and \<open>exportVariable\<close> to the
  file named by \<open>GITHUB_ENV\<close>; both throw when there is no such file. \<open>exportVariable\<close>
  sets its variable in the environment of the process before it writes. So exporting a
  value under the name \<open>GITHUB_ENV\<close> throws, and after exporting one under the name
  \<open>GITHUB_OUTPUT\<close> every \<open>setOutput\<close> throws, the value not being the path of a file
  (with no path at all, an empty value, the toolkit prints a command instead and does not
  throw). The state is the value that took the place of the path in \<open>GITHUB_OUTPUT\<close>, if
  any.
\<close>

definition file_setOutput ::
  "js_string option \<Rightarrow> js_string \<Rightarrow> js_string \<Rightarrow> thrown option \<times> js_string option" where
  "file_setOutput lost name val =
     (case lost of
        None \<Rightarrow> (None, lost)
      | Some path \<Rightarrow> (Some (Thrown (utf16 ''Missing file at path: '' @ path)), lost))"

definition file_exportVariable ::
  "js_string option \<Rightarrow> js_string \<Rightarrow> js_string \<Rightarrow> thrown option \<times> js_string option" where
  "file_exportVariable lost name val =
     (if name = utf16 ''GITHUB_ENV'' \<and> val \<noteq> []
      then (Some (Thrown (utf16 ''Missing file at path: '' @ val)), lost)
      else (None,
            if name = utf16 ''GITHUB_OUTPUT'' then (if val = [] then None else Some val)
            else lost))"

text \<open>
  A world for examples: the outcome of the subscription request, the text of
  \<open>min_mask_length\<close>, the export flag, the output names of the references and the answers
  of the store are given; the other inputs are empty, and the toolkit is the one above.
\<close>

definition example ::
  "axios_result \<Rightarrow> string \<Rightarrow> bool \<Rightarrow> string list \<Rightarrow> (thrown + js_string) list
     \<Rightarrow> (nat, unit, js_string option) world" where
  "example ax mml ex outs answers =
     \<lparr>axios_get = ax,
      getInput = (\<lambda>name required.
        if name = ''min_mask_length'' then Inr (utf16 mml)
        else if name = ''secrets'' then Inr (utf16 ''refs'')
        else Inr []),
      parseBoolean = (\<lambda>s. Inr ex),
      errorMessage = (\<lambda>err. case err of Thrown m \<Rightarrow> m),
      newClient = (\<lambda>universe. Inr 0),
      parseSecretsRefs = (\<lambda>s. Inr (map (\<lambda>n. \<lparr>output = utf16 n\<rparr>) outs)),
      accessSecret = store_answers answers,
      core_state = None,
      core_setOutput = file_setOutput,
      core_exportVariable = file_exportVariable\<rparr>"

section \<open>The structure of a run\<close>

subsection \<open>The loop, cycle by cycle\<close>

lemma trace_emit: "trace (emit ev s) = trace s @ [ev]"
  by (simp add: emit_def)

lemma exitCode_emit: "exitCode (emit ev s) = exitCode s"
  by (simp add: emit_def)

lemma foldl_mask:
  "foldl (\<lambda>s line. if P line then setSecret line s else s) s ls
     = s\<lparr>trace := trace s @ map SetSecret (filter P ls)\<rparr>"
  by (induction ls arbitrary: s) (simp_all add: setSecret_def emit_def)

lemma mask_lines_eq:
  "mask_lines minLen val s = s\<lparr>trace := trace s @ map SetSecret (masked minLen val)\<rparr>"
  unfolding mask_lines_def masked_def by (rule foldl_mask)

lemma for_refs_events:
  "for_refs w minLen exportEnv enc refs cl tk s =
     (s\<lparr>trace := trace s @ fst (loop_events w minLen exportEnv enc refs cl tk)\<rparr>,
      snd (loop_events w minLen exportEnv enc refs cl tk))"
proof (induction refs arbitrary: cl tk s exportEnv)
  case Nil
  show ?case by simp
next
  case (Cons ref refs)
  obtain r cl' where acc: "accessSecret w cl ref enc = (r, cl')"
    by (cases "accessSecret w cl ref enc")
  show ?case
  proof (cases r)
    case (Inl err)
    with acc show ?thesis by (simp add: emit_def)
  next
    case (Inr val)
    obtain thr tk1 where so: "core_setOutput w tk (output ref) val = (thr, tk1)"
      by (cases "core_setOutput w tk (output ref) val")
    obtain thr' tk2 where ev: "core_exportVariable w tk1 (output ref) val = (thr', tk2)"
      by (cases "core_exportVariable w tk1 (output ref) val")
    show ?thesis
      using acc Inr so ev
      by (cases thr; cases thr')
        (simp_all add: Let_def setOutput_def exportVariable_def emit_def mask_lines_eq cycle_def
          split_beta Cons.IH)
  qed
qed

lemma loop_events_shaped:
  "shaped minLen exportEnv enc refs (thrown_by w exportEnv enc refs cl tk)
     (fst (loop_events w minLen exportEnv enc refs cl tk))
     (snd (loop_events w minLen exportEnv enc refs cl tk))"
proof (induction refs arbitrary: cl tk)
  case Nil
  show ?case by (simp add: shaped_def)
next
  case (Cons ref refs)
  have grow: "shaped minLen exportEnv enc (ref # refs) who
      (cycle minLen exportEnv enc (ref, val) @ evs) res"
    if "shaped minLen exportEnv enc refs who evs res" for val evs res who
  proof -
    from that obtain vs where len: "length vs \<le> length refs" and
      sh: "(who = None \<and> res = Done () \<and> length vs = length refs \<and>
            evs = concat (map (cycle minLen exportEnv enc) (zip refs vs)))
         \<or> (\<exists>err. who = Some ByAccessSecret \<and> res = Threw err \<and> length vs < length refs \<and>
            evs = concat (map (cycle minLen exportEnv enc) (zip refs vs))
                  @ [AccessSecret (refs ! length vs) enc (Inl err)])
         \<or> (\<exists>err v. who = Some BySetOutput \<and> res = Threw err \<and> length vs < length refs \<and>
            evs = concat (map (cycle minLen exportEnv enc) (zip refs vs))
                  @ cycle minLen False enc (refs ! length vs, v))
         \<or> (\<exists>err v. who = Some ByExportVariable \<and> res = Threw err \<and> length vs < length refs \<and>
            exportEnv \<and>
            evs = concat (map (cycle minLen exportEnv enc) (zip refs vs))
                  @ cycle minLen True enc (refs ! length vs, v))"
      unfolding shaped_def by blast
    show ?thesis
      unfolding shaped_def
      apply (rule exI [of _ "val # vs"])
      using len sh by auto
  qed
  obtain r cl' where acc: "accessSecret w cl ref enc = (r, cl')"
    by (cases "accessSecret w cl ref enc")
  show ?case
  proof (cases r)
    case (Inl err)
    with acc show ?thesis
      unfolding shaped_def by (intro exI [of _ "[]"]) simp
  next
    case (Inr val)
    obtain thr tk1 where so: "core_setOutput w tk (output ref) val = (thr, tk1)"
      by (cases "core_setOutput w tk (output ref) val")
    show ?thesis
    proof (cases thr)
      case (Some err)
      with acc Inr so show ?thesis
        unfolding shaped_def by (intro exI [of _ "[]"]) auto
    next
      case None
      show ?thesis
      proof (cases exportEnv)
        case False
        with acc Inr so None grow [OF Cons.IH [of cl' tk1], of val] show ?thesis
          by (simp add: split_beta)
      next
        case True
        obtain thr' tk2 where ev: "core_exportVariable w tk1 (output ref) val = (thr', tk2)"
          by (cases "core_exportVariable w tk1 (output ref) val")
        show ?thesis
        proof (cases thr')
          case (Some err)
          with acc Inr so None True ev show ?thesis
            unfolding shaped_def by (intro exI [of _ "[]"]) auto
        next
          case None' : None
          with acc Inr so None True ev grow [OF Cons.IH [of cl' tk2], of val] show ?thesis
            by (simp add: split_beta)
        qed
      qed
    qed
  qed
qed

subsection \<open>The subscription check and the whole run\<close>

lemma validate_forbidden:
  "forbidden (axios_get w) \<Longrightarrow>
     validateSubscription w s =
       (s\<lparr>trace := trace s @ [AxiosGet (axios_get w),
          ErrorLog (utf16 ''Subscription is not valid. Reach out to support@stepsecurity.io'')]\<rparr>,
        Exit 1)"
  by (simp add: validateSubscription_def forbidden_def error_log_def emit_def)

lemma validate_passes:
  "\<not> forbidden (axios_get w) \<Longrightarrow>
     validateSubscription w s =
       (s\<lparr>trace := trace s @ AxiosGet (axios_get w) #
          (if axios_get w = Resolved then []
           else [Info (utf16 ''Timeout or API not reachable. Continuing to next step.'')])\<rparr>,
        Done ())"
  by (cases "axios_get w") (auto simp add: validateSubscription_def forbidden_def info_def emit_def)

lemma preflight_passes:
  "\<not> forbidden (axios_get w) \<Longrightarrow>
     preflight w = AxiosGet (axios_get w) #
          (if axios_get w = Resolved then []
           else [Info (utf16 ''Timeout or API not reachable. Continuing to next step.'')])"
  by (simp add: preflight_def validate_passes initial_def)

lemma validate_passes':
  "\<not> forbidden (axios_get w) \<Longrightarrow>
     validateSubscription w initial = (\<lparr>trace = preflight w, exitCode = 0\<rparr>, Done ())"
  by (simp add: preflight_passes validate_passes initial_def)

lemma preflight_forbidden:
  "forbidden (axios_get w) \<Longrightarrow>
     preflight w = [AxiosGet (axios_get w),
       ErrorLog (utf16 ''Subscription is not valid. Reach out to support@stepsecurity.io'')]"
  by (simp add: preflight_def validate_forbidden initial_def)

lemma run_forbidden:
  "forbidden (axios_get w) \<Longrightarrow>
     run w = (\<lparr>trace = [AxiosGet (axios_get w),
          ErrorLog (utf16 ''Subscription is not valid. Reach out to support@stepsecurity.io'')],
          exitCode = 0\<rparr>, Exited 1)"
  by (simp add: run_def try_block_def validate_forbidden initial_def)

lemma run_config_error:
  "\<not> forbidden (axios_get w) \<Longrightarrow> read_inputs w = Inl err \<Longrightarrow>
     run w = (\<lparr>trace = preflight w @ [SetFailed (failure_prefix @ errorMessage w err)],
          exitCode = 1\<rparr>, Returned)"
  by (simp add: run_def try_block_def validate_passes' setFailed_def emit_def)

lemma run_eq:
  fixes w :: "('c, 'r, 't) world"
  assumes ok: "\<not> forbidden (axios_get w)" and cfg: "read_inputs w = Inr cfg"
    and L: "loop_events w (minMaskLength cfg) (exportEnvironment cfg) (encoding cfg)
              (secretsRefs cfg) (client cfg) (core_state w) = (evs, res)"
  shows "run w =
    (case res of
       Done u \<Rightarrow> (\<lparr>trace = preflight w @ evs, exitCode = 0\<rparr>, Returned)
     | Threw err \<Rightarrow>
         (\<lparr>trace = preflight w @ evs @ [SetFailed (failure_prefix @ errorMessage w err)],
           exitCode = 1\<rparr>, Returned)
     | Exit n \<Rightarrow> (\<lparr>trace = preflight w @ evs, exitCode = 0\<rparr>, Exited n))"
  by (cases res)
    (simp_all add: run_def try_block_def validate_passes' [OF ok] cfg for_refs_events L
      setFailed_def emit_def)

text \<open>The four ways in which a run that entered the loop ends.\<close>

lemma run_cases [consumes 3, case_names complete at_fetch at_output at_export]:
  fixes w :: "('c, 'r, 't) world"
  assumes run: "run w = (s, c)" and cfg: "read_inputs w = Inr cfg"
    and ok: "\<not> forbidden (axios_get w)"
  obtains
    (complete) vs where
      "thrown_by w (exportEnvironment cfg) (encoding cfg) (secretsRefs cfg) (client cfg)
         (core_state w) = None"
      "length vs = length (secretsRefs cfg)" "c = Returned" "exitCode s = 0"
      "trace s = preflight w
         @ concat (map (cycle (minMaskLength cfg) (exportEnvironment cfg) (encoding cfg))
             (zip (secretsRefs cfg) vs))"
  | (at_fetch) vs err where
      "thrown_by w (exportEnvironment cfg) (encoding cfg) (secretsRefs cfg) (client cfg)
         (core_state w) = Some ByAccessSecret"
      "length vs < length (secretsRefs cfg)" "c = Returned" "exitCode s = 1"
      "trace s = preflight w
         @ concat (map (cycle (minMaskLength cfg) (exportEnvironment cfg) (encoding cfg))
             (zip (secretsRefs cfg) vs))
         @ [AccessSecret (secretsRefs cfg ! length vs) (encoding cfg) (Inl err),
            SetFailed (failure_prefix @ errorMessage w err)]"
  | (at_output) vs err v where
      "thrown_by w (exportEnvironment cfg) (encoding cfg) (secretsRefs cfg) (client cfg)
         (core_state w) = Some BySetOutput"
      "length vs < length (secretsRefs cfg)" "c = Returned" "exitCode s = 1"
      "trace s = preflight w
         @ concat (map (cycle (minMaskLength cfg) (exportEnvironment cfg) (encoding cfg))
             (zip (secretsRefs cfg) vs))
         @ cycle (minMaskLength cfg) False (encoding cfg) (secretsRefs cfg ! length vs, v)
         @ [SetFailed (failure_prefix @ errorMessage w err)]"
  | (at_export) vs err v where
      "thrown_by w (exportEnvironment cfg) (encoding cfg) (secretsRefs cfg) (client cfg)
         (core_state w) = Some ByExportVariable"
      "length vs < length (secretsRefs cfg)" "c = Returned" "exitCode s = 1"
      "exportEnvironment cfg"
      "trace s = preflight w
         @ concat (map (cycle (minMaskLength cfg) (exportEnvironment cfg) (encoding cfg))
             (zip (secretsRefs cfg) vs))
         @ cycle (minMaskLength cfg) True (encoding cfg) (secretsRefs cfg ! length vs, v)
         @ [SetFailed (failure_prefix @ errorMessage w err)]"
proof -
  define m where "m = minMaskLength cfg"
  define e where "e = exportEnvironment cfg"
  define enc where "enc = encoding cfg"
  define refs where "refs = secretsRefs cfg"
  define who where "who = thrown_by w e enc refs (client cfg) (core_state w)"
  define evs where "evs = fst (loop_events w m e enc refs (client cfg) (core_state w))"
  define res where "res = snd (loop_events w m e enc refs (client cfg) (core_state w))"
  have L: "loop_events w (minMaskLength cfg) (exportEnvironment cfg) (encoding cfg)
              (secretsRefs cfg) (client cfg) (core_state w) = (evs, res)"
    by (simp add: evs_def res_def m_def e_def enc_def refs_def)
  note r = run_eq [OF ok cfg L]
  have "shaped m e enc refs who evs res"
    unfolding who_def evs_def res_def by (rule loop_events_shaped)
  then obtain vs where
    sh: "(who = None \<and> res = Done () \<and> length vs = length refs \<and>
            evs = concat (map (cycle m e enc) (zip refs vs)))
         \<or> (\<exists>err. who = Some ByAccessSecret \<and> res = Threw err \<and> length vs < length refs \<and>
            evs = concat (map (cycle m e enc) (zip refs vs))
                  @ [AccessSecret (refs ! length vs) enc (Inl err)])
         \<or> (\<exists>err v. who = Some BySetOutput \<and> res = Threw err \<and> length vs < length refs \<and>
            evs = concat (map (cycle m e enc) (zip refs vs))
                  @ cycle m False enc (refs ! length vs, v))
         \<or> (\<exists>err v. who = Some ByExportVariable \<and> res = Threw err \<and> length vs < length refs \<and>
            e \<and>
            evs = concat (map (cycle m e enc) (zip refs vs))
                  @ cycle m True enc (refs ! length vs, v))"
    unfolding shaped_def by blast
  then consider
    (a) "who = None" "res = Done ()" "length vs = length refs"
        "evs = concat (map (cycle m e enc) (zip refs vs))"
    | (b) err where "who = Some ByAccessSecret" "res = Threw err" "length vs < length refs"
        "evs = concat (map (cycle m e enc) (zip refs vs))
                  @ [AccessSecret (refs ! length vs) enc (Inl err)]"
    | (c) err v where "who = Some BySetOutput" "res = Threw err" "length vs < length refs"
        "evs = concat (map (cycle m e enc) (zip refs vs)) @ cycle m False enc (refs ! length vs, v)"
    | (d) err v where "who = Some ByExportVariable" "res = Threw err" "length vs < length refs" e
        "evs = concat (map (cycle m e enc) (zip refs vs)) @ cycle m True enc (refs ! length vs, v)"
    by blast
  then show thesis
  proof cases
    case a
    from run r a(2) have "s = \<lparr>trace = preflight w @ evs, exitCode = 0\<rparr>" "c = Returned"
      by simp_all
    with a show ?thesis
      by (intro complete [where vs = vs]) (simp_all add: who_def m_def e_def enc_def refs_def)
  next
    case b
    from run r b(2) have "s = \<lparr>trace = preflight w @ evs
        @ [SetFailed (failure_prefix @ errorMessage w err)], exitCode = 1\<rparr>" "c = Returned"
      by simp_all
    with b show ?thesis
      by (intro at_fetch [where vs = vs and err = err]) (simp_all add: who_def m_def e_def enc_def refs_def)
  next
    case c
    from run r c(2) have "s = \<lparr>trace = preflight w @ evs
        @ [SetFailed (failure_prefix @ errorMessage w err)], exitCode = 1\<rparr>" "c = Returned"
      by simp_all
    with c show ?thesis
      by (intro at_output [where vs = vs and err = err and v = v]) (simp_all add: who_def m_def e_def enc_def refs_def)
  next
    case d
    from run r d(2) have "s = \<lparr>trace = preflight w @ evs
        @ [SetFailed (failure_prefix @ errorMessage w err)], exitCode = 1\<rparr>" "c = Returned"
      by simp_all
    with d show ?thesis
      by (intro at_export [where vs = vs and err = err and v = v]) (simp_all add: who_def m_def e_def enc_def refs_def)
  qed
qed

subsection \<open>Readings of a sequence of cycles\<close>

text \<open>An element that is not in a prefix of a list lies behind the prefix.\<close>

lemma split_past:
  "xs @ a # ys = p @ q \<Longrightarrow> a \<notin> set p \<Longrightarrow> \<exists>xs'. xs = p @ xs' \<and> q = xs' @ a # ys"
proof (induction p arbitrary: xs)
  case Nil
  then show ?case by simp
next
  case (Cons b p)
  then show ?case by (cases xs) auto
qed

lemma fetched_append: "fetched (a @ b) = fetched a @ fetched b"
  by (induction a rule: fetched.induct) simp_all

lemma requested_append: "requested (a @ b) = requested a @ requested b"
  by (induction a rule: requested.induct) simp_all

lemma registered_append: "registered (a @ b) = registered a @ registered b"
  by (induction a rule: registered.induct) simp_all

lemma set_outputs_append: "set_outputs (a @ b) = set_outputs a @ set_outputs b"
  by (induction a rule: set_outputs.induct) simp_all

lemma exported_append: "exported (a @ b) = exported a @ exported b"
  by (induction a rule: exported.induct) simp_all

lemma observe_masks:
  "fetched (map SetSecret ls) = []" "requested (map SetSecret ls) = []"
  "registered (map SetSecret ls) = ls" "set_outputs (map SetSecret ls) = []"
  "exported (map SetSecret ls) = []"
  by (induction ls) simp_all

lemma observe_cycle:
  "fetched (cycle m e enc rv) = [rv]"
  "requested (cycle m e enc rv) = [fst rv]"
  "registered (cycle m e enc rv) = masked m (snd rv)"
  "set_outputs (cycle m e enc rv) = [published rv]"
  "exported (cycle m e enc rv) = (if e then [published rv] else [])"
  by (simp_all add: cycle_def published_def fetched_append requested_append registered_append
      set_outputs_append exported_append observe_masks)

lemma observe_cycles:
  "fetched (concat (map (cycle m e enc) rvs)) = rvs"
  "requested (concat (map (cycle m e enc) rvs)) = map fst rvs"
  "registered (concat (map (cycle m e enc) rvs)) = concat (map (\<lambda>rv. masked m (snd rv)) rvs)"
  "set_outputs (concat (map (cycle m e enc) rvs)) = map published rvs"
  "exported (concat (map (cycle m e enc) rvs)) = (if e then map published rvs else [])"
  by (induction rvs) (simp_all add: fetched_append requested_append registered_append
      set_outputs_append exported_append observe_cycle)

lemma observe_preflight:
  "fetched (preflight w) = []" "requested (preflight w) = []" "registered (preflight w) = []"
  "set_outputs (preflight w) = []" "exported (preflight w) = []"
  by (cases "forbidden (axios_get w)"; simp add: preflight_forbidden preflight_passes)+

subsection \<open>Positions in a sequence of cycles\<close>

text \<open>Where a store request that succeeded sits in a sequence of cycles.\<close>

lemma cycles_at_fetch:
  "concat (map (\<lambda>brv. cycle m (fst brv) enc (snd brv)) brvs) @ post = xs @ AccessSecret r enc' (Inr v) # ys \<Longrightarrow>
   AccessSecret r enc' (Inr v) \<notin> set post \<Longrightarrow>
   enc' = enc \<and> (\<exists>zs. ys = map SetSecret (masked m v) @ SetOutput (output r) v # zs)"
proof (induction brvs arbitrary: xs)
  case Nil
  then have "post = xs @ AccessSecret r enc' (Inr v) # ys" by simp
  then have "AccessSecret r enc' (Inr v) \<in> set post" by simp
  with Nil.prems(2) show ?case by simp
next
  case (Cons brv brvs)
  define A :: "'a event" where "A = AccessSecret r enc' (Inr v)"
  define exp :: "'a event list"
    where "exp = (if fst brv then [ExportVariable (output (fst (snd brv))) (snd (snd brv))] else [])"
  define tail where "tail = map SetSecret (masked m (snd (snd brv))) @ SetOutput (output (fst (snd brv))) (snd (snd brv)) # exp"
  define rest where "rest = concat (map (\<lambda>brv. cycle m (fst brv) enc (snd brv)) brvs) @ post"
  have cyc: "cycle m (fst brv) enc (snd brv) = AccessSecret (fst (snd brv)) enc (Inr (snd (snd brv))) # tail"
    by (simp add: cycle_def tail_def exp_def)
  from Cons.prems(1) have eq: "AccessSecret (fst (snd brv)) enc (Inr (snd (snd brv))) # tail @ rest = xs @ A # ys"
    by (simp add: cyc rest_def A_def)
  show ?case
  proof (cases xs)
    case Nil
    with eq have "A = AccessSecret (fst (snd brv)) enc (Inr (snd (snd brv)))" and ys: "ys = tail @ rest" by simp_all
    then have same: "r = fst (snd brv)" "enc' = enc" "v = snd (snd brv)" by (simp_all add: A_def)
    have "ys = map SetSecret (masked m v) @ SetOutput (output r) v # (exp @ rest)"
      by (simp add: ys tail_def same)
    then have "\<exists>zs. ys = map SetSecret (masked m v) @ SetOutput (output r) v # zs" by (rule exI)
    with same show ?thesis by simp
  next
    case (Cons x xs')
    with eq have eq': "xs' @ A # ys = tail @ rest" by simp
    have "A \<notin> set tail" by (auto simp add: A_def tail_def exp_def)
    from split_past [OF eq' this] obtain xs'' where "rest = xs'' @ A # ys" by blast
    then have "concat (map (\<lambda>brv. cycle m (fst brv) enc (snd brv)) brvs) @ post = xs'' @ AccessSecret r enc' (Inr v) # ys"
      by (simp add: rest_def A_def)
    from Cons.IH [OF this Cons.prems(2)] show ?thesis .
  qed
qed

text \<open>Where a call of \<open>setOutput\<close> sits in a sequence of cycles.\<close>

lemma cycles_at_output:
  "concat (map (\<lambda>brv. cycle m (fst brv) enc (snd brv)) brvs) @ post = xs @ SetOutput n v # ys \<Longrightarrow>
   SetOutput n v \<notin> set post \<Longrightarrow>
   \<exists>pre r. xs = pre @ AccessSecret r enc (Inr v) # map SetSecret (masked m v) \<and> output r = n"
proof (induction brvs arbitrary: xs)
  case Nil
  then have "post = xs @ SetOutput n v # ys" by simp
  then have "SetOutput n v \<in> set post" by simp
  with Nil.prems(2) show ?case by simp
next
  case (Cons brv brvs)
  define S :: "'a event" where "S = SetOutput n v"
  define S0 :: "'a event" where "S0 = SetOutput (output (fst (snd brv))) (snd (snd brv))"
  define hd0 where "hd0 = AccessSecret (fst (snd brv)) enc (Inr (snd (snd brv))) # map SetSecret (masked m (snd (snd brv)))"
  define exp :: "'a event list"
    where "exp = (if fst brv then [ExportVariable (output (fst (snd brv))) (snd (snd brv))] else [])"
  define rest where "rest = concat (map (\<lambda>brv. cycle m (fst brv) enc (snd brv)) brvs) @ post"
  have cyc: "cycle m (fst brv) enc (snd brv) = hd0 @ S0 # exp"
    by (simp add: cycle_def hd0_def S0_def exp_def)
  from Cons.prems(1) have eq: "xs @ S # ys = hd0 @ (S0 # exp @ rest)"
    by (simp add: cyc rest_def S_def)
  have "S \<notin> set hd0" by (auto simp add: S_def hd0_def)
  from split_past [OF eq this] obtain xs1 where xs: "xs = hd0 @ xs1"
    and eq1: "S0 # exp @ rest = xs1 @ S # ys" by blast
  show ?case
  proof (cases xs1)
    case Nil
    with eq1 have "S0 = S" by simp
    then have same: "n = output (fst (snd brv))" "v = snd (snd brv)" by (simp_all add: S_def S0_def)
    have "xs = [] @ AccessSecret (fst (snd brv)) enc (Inr v) # map SetSecret (masked m v)
        \<and> output (fst (snd brv)) = n"
      by (simp add: xs Nil hd0_def same)
    then show ?thesis by (intro exI)
  next
    case (Cons x xs2)
    with eq1 have eq2: "xs2 @ S # ys = exp @ rest" by simp
    have "S \<notin> set exp" by (simp add: S_def exp_def)
    from split_past [OF eq2 this] obtain xs3 where xs2: "xs2 = exp @ xs3"
      and eq3: "rest = xs3 @ S # ys" by blast
    from eq3 have "concat (map (\<lambda>brv. cycle m (fst brv) enc (snd brv)) brvs) @ post = xs3 @ SetOutput n v # ys"
      by (simp add: rest_def S_def)
    from Cons.IH [OF this Cons.prems(2)] obtain pre r
      where xs3: "xs3 = pre @ AccessSecret r enc (Inr v) # map SetSecret (masked m v)"
        and r: "output r = n"
      by blast
    have "xs = (hd0 @ x # exp @ pre) @ AccessSecret r enc (Inr v) # map SetSecret (masked m v)"
      by (simp add: xs Cons xs2 xs3)
    then have "xs = (hd0 @ x # exp @ pre) @ AccessSecret r enc (Inr v) # map SetSecret (masked m v)
        \<and> output r = n"
      using r by (rule conjI)
    then show ?thesis by (intro exI)
  qed
qed

text \<open>Where a call of \<open>exportVariable\<close> sits in a sequence of cycles.\<close>

lemma cycles_at_export:
  "concat (map (\<lambda>brv. cycle m (fst brv) enc (snd brv)) brvs) @ post = xs @ ExportVariable n v # ys \<Longrightarrow>
   ExportVariable n v \<notin> set post \<Longrightarrow>
   \<exists>pre r. xs = pre @ AccessSecret r enc (Inr v) # map SetSecret (masked m v) @ [SetOutput n v]
       \<and> output r = n"
proof (induction brvs arbitrary: xs)
  case Nil
  then have "post = xs @ ExportVariable n v # ys" by simp
  then have "ExportVariable n v \<in> set post" by simp
  with Nil.prems(2) show ?case by simp
next
  case (Cons brv brvs)
  define E :: "'a event" where "E = ExportVariable n v"
  define hd0 where "hd0 = AccessSecret (fst (snd brv)) enc (Inr (snd (snd brv)))
      # map SetSecret (masked m (snd (snd brv)))
      @ [SetOutput (output (fst (snd brv))) (snd (snd brv))]"
  define exp :: "'a event list"
    where "exp = (if fst brv then [ExportVariable (output (fst (snd brv))) (snd (snd brv))] else [])"
  define rest where "rest = concat (map (\<lambda>brv. cycle m (fst brv) enc (snd brv)) brvs) @ post"
  have cyc: "cycle m (fst brv) enc (snd brv) = hd0 @ exp"
    by (simp add: cycle_def hd0_def exp_def)
  from Cons.prems(1) have eq: "xs @ E # ys = hd0 @ (exp @ rest)"
    by (simp add: cyc rest_def E_def)
  have "E \<notin> set hd0" by (auto simp add: E_def hd0_def)
  from split_past [OF eq this] obtain xs1 where xs: "xs = hd0 @ xs1"
    and eq1: "exp @ rest = xs1 @ E # ys" by blast
  show ?case
  proof (cases "fst brv \<and> xs1 = []")
    case True
    with eq1 have "ExportVariable (output (fst (snd brv))) (snd (snd brv)) = E" by (simp add: exp_def)
    then have same: "n = output (fst (snd brv))" "v = snd (snd brv)" by (simp_all add: E_def)
    have "xs = [] @ AccessSecret (fst (snd brv)) enc (Inr v) # map SetSecret (masked m v)
        @ [SetOutput n v] \<and> output (fst (snd brv)) = n"
      using True by (simp add: xs hd0_def same)
    then show ?thesis by (intro exI)
  next
    case False
    have "\<exists>xs2. xs1 = exp @ xs2 \<and> rest = xs2 @ E # ys"
    proof (cases "fst brv")
      case True
      with False obtain x xs2 where "xs1 = x # xs2" by (cases xs1) auto
      with eq1 True show ?thesis by (simp add: exp_def)
    next
      case False
      with eq1 show ?thesis by (simp add: exp_def)
    qed
    then obtain xs2 where xs1: "xs1 = exp @ xs2" and eq2: "rest = xs2 @ E # ys" by blast
    from eq2 have "concat (map (\<lambda>brv. cycle m (fst brv) enc (snd brv)) brvs) @ post
        = xs2 @ ExportVariable n v # ys"
      by (simp add: rest_def E_def)
    from Cons.IH [OF this Cons.prems(2)] obtain pre r
      where xs2: "xs2 = pre @ AccessSecret r enc (Inr v) # map SetSecret (masked m v) @ [SetOutput n v]"
        and r: "output r = n"
      by blast
    have "xs = (hd0 @ exp @ pre) @ AccessSecret r enc (Inr v) # map SetSecret (masked m v) @ [SetOutput n v]"
      by (simp add: xs xs1 xs2)
    then have "xs = (hd0 @ exp @ pre) @ AccessSecret r enc (Inr v) # map SetSecret (masked m v) @ [SetOutput n v]
        \<and> output r = n"
      using r by (rule conjI)
    then show ?thesis by (intro exI)
  qed
qed

subsection \<open>Splitting at line breaks\<close>

lemma CR_neq_LF: "CR \<noteq> LF"
  by (simp add: CR_def LF_def)

lemma split_not_Nil: "split val \<noteq> []"
  by (cases val) (simp_all split: list.split)

lemma split_CR_LF: "split (CR # LF # cs) = [] # split cs"
  by simp

lemma split_CR: "d \<noteq> LF \<Longrightarrow> split (CR # d # cs) = [] # split (d # cs)"
  by simp

lemma split_LF: "split (LF # cs) = [] # split cs"
  using CR_neq_LF by simp

lemma split_other:
  "c \<noteq> CR \<Longrightarrow> c \<noteq> LF \<Longrightarrow> split (c # cs) = (c # hd (split cs)) # tl (split cs)"
  using split_not_Nil [of cs] by (cases "split cs") simp_all

declare split.simps(2) [simp del]

lemma join_lines_Cons: "lines \<noteq> [] \<Longrightarrow> join_lines (line # lines) = line @ LF # join_lines lines"
  by (cases lines) simp_all

lemma join_lines_push:
  "lines \<noteq> [] \<Longrightarrow> join_lines ((c # hd lines) # tl lines) = c # join_lines lines"
  by (cases lines rule: join_lines.cases) simp_all

lemma join_split: "join_lines (split val) = line_feeds val"
proof (induction val rule: line_feeds.induct)
  case (1 c d cs)
  consider (crlf) "c = CR" "d = LF" | (cr) "c = CR" "d \<noteq> LF" | (lf) "c = LF"
    | (other) "c \<noteq> CR" "c \<noteq> LF"
    by blast
  then show ?case
  proof cases
    case crlf
    with 1 show ?thesis
      by (simp add: split_CR_LF join_lines_Cons [OF split_not_Nil])
  next
    case cr
    with 1 show ?thesis
      by (simp add: split_CR join_lines_Cons [OF split_not_Nil])
  next
    case lf
    with 1 CR_neq_LF show ?thesis
      by (simp add: split_LF join_lines_Cons [OF split_not_Nil])
  next
    case other
    with 1 show ?thesis
      by (simp add: split_other join_lines_push [OF split_not_Nil])
  qed
next
  case (2 c)
  show ?case by (simp add: split.simps(2) CR_neq_LF)
next
  case 3
  show ?case by simp
qed

lemma split_no_break: "line \<in> set (split val) \<Longrightarrow> CR \<notin> set line \<and> LF \<notin> set line"
proof (induction val arbitrary: line rule: line_feeds.induct)
  case (1 c d cs)
  consider (crlf) "c = CR" "d = LF" | (cr) "c = CR" "d \<noteq> LF" | (lf) "c = LF"
    | (other) "c \<noteq> CR" "c \<noteq> LF"
    by blast
  then show ?case
  proof cases
    case crlf
    from crlf 1(4) have "line = [] \<or> line \<in> set (split cs)" by (simp add: split_CR_LF)
    with 1(1) [of line] crlf show ?thesis by auto
  next
    case cr
    from cr 1(4) have "line = [] \<or> line \<in> set (split (d # cs))" by (simp add: split_CR)
    with 1(2) [of line] cr show ?thesis by auto
  next
    case lf
    from lf 1(4) have "line = [] \<or> line \<in> set (split (d # cs))" by (simp add: split_LF)
    with 1(3) [of line] lf CR_neq_LF show ?thesis by auto
  next
    case other
    have mem: "hd (split (d # cs)) \<in> set (split (d # cs))"
      and sub: "set (tl (split (d # cs))) \<subseteq> set (split (d # cs))"
      using split_not_Nil [of "d # cs"] by (simp_all add: list.set_sel(2) subsetI)
    from other 1(4) have "line = c # hd (split (d # cs)) \<or> line \<in> set (tl (split (d # cs)))"
      by (simp add: split_other)
    then show ?thesis
    proof
      assume "line = c # hd (split (d # cs))"
      with 1(3) [OF _ _ mem] other show ?thesis by auto
    next
      assume "line \<in> set (tl (split (d # cs)))"
      with sub have "line \<in> set (split (d # cs))" by blast
      with 1(3) [of line] other show ?thesis by auto
    qed
  qed
next
  case (2 c)
  then show ?case by (auto simp add: split.simps(2) CR_neq_LF split: if_splits)
next
  case 3
  then show ?case by simp
qed

subsection \<open>Positions in a run\<close>

lemma preflight_events:
  "ev \<in> set (preflight w) \<Longrightarrow> (\<exists>r. ev = AxiosGet r) \<or> (\<exists>m. ev = Info m) \<or> (\<exists>m. ev = ErrorLog m)"
  by (cases "forbidden (axios_get w)") (auto simp add: preflight_forbidden preflight_passes split: if_splits)

text \<open>
  The calls of a run are those of the subscription check, then cycles, the last of which
  may have been cut short, and then at most a request that failed and the failure report.
\<close>

lemma run_calls:
  fixes w :: "('c, 'r, 't) world"
  assumes run: "run w = (s, c)" and cfg: "read_inputs w = Inr cfg"
  shows "\<exists>brvs post.
      trace s = preflight w
        @ concat (map (\<lambda>brv. cycle (minMaskLength cfg) (fst brv) (encoding cfg) (snd brv)) brvs)
        @ post \<and>
      (post = [] \<or> (\<exists>msg. post = [SetFailed msg])
       \<or> (\<exists>r err msg. post = [AccessSecret r (encoding cfg) (Inl err), SetFailed msg]))"
proof (cases "forbidden (axios_get w)")
  case True
  from run have "trace s = preflight w"
    by (auto simp add: run_forbidden [OF True] preflight_forbidden [OF True])
  then have "trace s = preflight w
        @ concat (map (\<lambda>brv. cycle (minMaskLength cfg) (fst brv) (encoding cfg) (snd brv)) [])
        @ [] \<and>
      (([]::'r event list) = [] \<or> (\<exists>msg. ([]::'r event list) = [SetFailed msg])
       \<or> (\<exists>r err msg. ([]::'r event list) = [AccessSecret r (encoding cfg) (Inl err), SetFailed msg]))"
    by simp
  then show ?thesis by (intro exI)
next
  case False
  define m where "m = minMaskLength cfg"
  define e where "e = exportEnvironment cfg"
  define enc where "enc = encoding cfg"
  define refs where "refs = secretsRefs cfg"
  have goal: "\<exists>brvs post.
      trace s = preflight w @ concat (map (\<lambda>brv. cycle m (fst brv) enc (snd brv)) brvs) @ post \<and>
      (post = [] \<or> (\<exists>msg. post = [SetFailed msg])
       \<or> (\<exists>r err msg. post = [AccessSecret r enc (Inl err), SetFailed msg]))"
    if "trace s = preflight w @ concat (map (\<lambda>brv. cycle m (fst brv) enc (snd brv)) brvs) @ post"
      and "post = [] \<or> (\<exists>msg. post = [SetFailed msg])
       \<or> (\<exists>r err msg. post = [AccessSecret r enc (Inl err), SetFailed msg])"
    for brvs post
    using that by blast
  from run cfg False have "\<exists>brvs post.
      trace s = preflight w @ concat (map (\<lambda>brv. cycle m (fst brv) enc (snd brv)) brvs) @ post \<and>
      (post = [] \<or> (\<exists>msg. post = [SetFailed msg])
       \<or> (\<exists>r err msg. post = [AccessSecret r enc (Inl err), SetFailed msg]))"
  proof (cases rule: run_cases)
    case (complete vs)
    show ?thesis
      by (rule goal [of "map (Pair e) (zip refs vs)" "[]"])
        (simp_all add: complete(5) m_def e_def enc_def refs_def comp_def)
  next
    case (at_fetch vs err)
    show ?thesis
      by (rule goal [of "map (Pair e) (zip refs vs)"
            "[AccessSecret (refs ! length vs) enc (Inl err),
              SetFailed (failure_prefix @ errorMessage w err)]"])
        (simp_all add: at_fetch(5) m_def e_def enc_def refs_def comp_def)
  next
    case (at_output vs err v)
    show ?thesis
      by (rule goal [of "map (Pair e) (zip refs vs) @ [(False, (refs ! length vs, v))]"
            "[SetFailed (failure_prefix @ errorMessage w err)]"])
        (simp_all add: at_output(5) m_def e_def enc_def refs_def comp_def)
  next
    case (at_export vs err v)
    show ?thesis
      by (rule goal [of "map (Pair e) (zip refs vs) @ [(True, (refs ! length vs, v))]"
            "[SetFailed (failure_prefix @ errorMessage w err)]"])
        (simp_all add: at_export(6) m_def e_def enc_def refs_def comp_def)
  qed
  then show ?thesis unfolding m_def enc_def .
qed

lemma run_at_fetch:
  fixes w :: "('c, 'r, 't) world"
  assumes run: "run w = (s, c)" and cfg: "read_inputs w = Inr cfg"
    and at: "trace s = xs @ AccessSecret r enc (Inr v) # ys"
  shows "enc = encoding cfg \<and>
    (\<exists>zs. ys = map SetSecret (masked (minMaskLength cfg) v) @ SetOutput (output r) v # zs)"
proof -
  from run_calls [OF run cfg] obtain brvs post where
    tr: "trace s = preflight w @
        (concat (map (\<lambda>brv. cycle (minMaskLength cfg) (fst brv) (encoding cfg) (snd brv)) brvs)
         @ post)"
    and post: "post = [] \<or> (\<exists>msg. post = [SetFailed msg])
       \<or> (\<exists>r err msg. post = [AccessSecret r (encoding cfg) (Inl err), SetFailed msg])"
    by auto
  have pre: "AccessSecret r enc (Inr v) \<notin> set (preflight w)"
    using preflight_events [of "AccessSecret r enc (Inr v)" w] by auto
  from post have notin: "AccessSecret r enc (Inr v) \<notin> set post" by auto
  from tr at have "xs @ AccessSecret r enc (Inr v) # ys = preflight w @
        (concat (map (\<lambda>brv. cycle (minMaskLength cfg) (fst brv) (encoding cfg) (snd brv)) brvs)
         @ post)"
    by simp
  from split_past [OF this pre] obtain xs' where
    "concat (map (\<lambda>brv. cycle (minMaskLength cfg) (fst brv) (encoding cfg) (snd brv)) brvs) @ post
       = xs' @ AccessSecret r enc (Inr v) # ys"
    by blast
  from cycles_at_fetch [OF this notin] show ?thesis .
qed

lemma run_at_output:
  fixes w :: "('c, 'r, 't) world"
  assumes run: "run w = (s, c)" and cfg: "read_inputs w = Inr cfg"
    and at: "trace s = xs @ SetOutput n v # ys"
  shows "\<exists>pre r. xs = pre @ AccessSecret r (encoding cfg) (Inr v)
      # map SetSecret (masked (minMaskLength cfg) v) \<and> output r = n"
proof -
  from run_calls [OF run cfg] obtain brvs post where
    tr: "trace s = preflight w @
        (concat (map (\<lambda>brv. cycle (minMaskLength cfg) (fst brv) (encoding cfg) (snd brv)) brvs)
         @ post)"
    and post: "post = [] \<or> (\<exists>msg. post = [SetFailed msg])
       \<or> (\<exists>r err msg. post = [AccessSecret r (encoding cfg) (Inl err), SetFailed msg])"
    by auto
  have pre: "SetOutput n v \<notin> set (preflight w)"
    using preflight_events [of "SetOutput n v" w] by auto
  from post have notin: "SetOutput n v \<notin> set post" by auto
  from tr at have "xs @ SetOutput n v # ys = preflight w @
        (concat (map (\<lambda>brv. cycle (minMaskLength cfg) (fst brv) (encoding cfg) (snd brv)) brvs)
         @ post)"
    by simp
  from split_past [OF this pre] obtain xs' where xs: "xs = preflight w @ xs'" and
    "concat (map (\<lambda>brv. cycle (minMaskLength cfg) (fst brv) (encoding cfg) (snd brv)) brvs) @ post
       = xs' @ SetOutput n v # ys"
    by blast
  from cycles_at_output [OF this(2) notin] obtain pre r where
    "xs' = pre @ AccessSecret r (encoding cfg) (Inr v) # map SetSecret (masked (minMaskLength cfg) v)"
    and r: "output r = n"
    by blast
  with xs have "xs = (preflight w @ pre) @ AccessSecret r (encoding cfg) (Inr v)
      # map SetSecret (masked (minMaskLength cfg) v)"
    by simp
  then have "xs = (preflight w @ pre) @ AccessSecret r (encoding cfg) (Inr v)
      # map SetSecret (masked (minMaskLength cfg) v) \<and> output r = n"
    using r by (rule conjI)
  then show ?thesis by (intro exI)
qed

lemma run_at_export:
  fixes w :: "('c, 'r, 't) world"
  assumes run: "run w = (s, c)" and cfg: "read_inputs w = Inr cfg"
    and at: "trace s = xs @ ExportVariable n v # ys"
  shows "\<exists>pre r. xs = pre @ AccessSecret r (encoding cfg) (Inr v)
      # map SetSecret (masked (minMaskLength cfg) v) @ [SetOutput n v] \<and> output r = n"
proof -
  from run_calls [OF run cfg] obtain brvs post where
    tr: "trace s = preflight w @
        (concat (map (\<lambda>brv. cycle (minMaskLength cfg) (fst brv) (encoding cfg) (snd brv)) brvs)
         @ post)"
    and post: "post = [] \<or> (\<exists>msg. post = [SetFailed msg])
       \<or> (\<exists>r err msg. post = [AccessSecret r (encoding cfg) (Inl err), SetFailed msg])"
    by auto
  have pre: "ExportVariable n v \<notin> set (preflight w)"
    using preflight_events [of "ExportVariable n v" w] by auto
  from post have notin: "ExportVariable n v \<notin> set post" by auto
  from tr at have "xs @ ExportVariable n v # ys = preflight w @
        (concat (map (\<lambda>brv. cycle (minMaskLength cfg) (fst brv) (encoding cfg) (snd brv)) brvs)
         @ post)"
    by simp
  from split_past [OF this pre] obtain xs' where xs: "xs = preflight w @ xs'" and
    "concat (map (\<lambda>brv. cycle (minMaskLength cfg) (fst brv) (encoding cfg) (snd brv)) brvs) @ post
       = xs' @ ExportVariable n v # ys"
    by blast
  from cycles_at_export [OF this(2) notin] obtain pre r where
    "xs' = pre @ AccessSecret r (encoding cfg) (Inr v) # map SetSecret (masked (minMaskLength cfg) v)
       @ [SetOutput n v]"
    and r: "output r = n"
    by blast
  with xs have "xs = (preflight w @ pre) @ AccessSecret r (encoding cfg) (Inr v)
      # map SetSecret (masked (minMaskLength cfg) v) @ [SetOutput n v]"
    by simp
  then have "xs = (preflight w @ pre) @ AccessSecret r (encoding cfg) (Inr v)
      # map SetSecret (masked (minMaskLength cfg) v) @ [SetOutput n v] \<and> output r = n"
    using r by (rule conjI)
  then show ?thesis by (intro exI)
qed

subsection \<open>A store request that fails\<close>

lemma cycle_no_failure:
  "AccessSecret r enc (Inl err) \<notin> set (cycle m e enc' rv)"
  by (auto simp add: cycle_def)

lemma cycles_no_failure:
  "AccessSecret r enc (Inl err) \<notin> set (concat (map (cycle m e enc') rvs))"
  by (induction rvs) (auto simp add: cycle_def)

lemma run_at_failure:
  fixes w :: "('c, 'r, 't) world"
  assumes run: "run w = (s, c)" and cfg: "read_inputs w = Inr cfg"
    and at: "trace s = xs @ AccessSecret r enc (Inl err) # ys"
  shows "\<exists>vs. length vs < length (secretsRefs cfg) \<and>
      xs = preflight w @ concat (map (cycle (minMaskLength cfg) (exportEnvironment cfg) (encoding cfg))
             (zip (secretsRefs cfg) vs)) \<and>
      r = secretsRefs cfg ! length vs \<and> enc = encoding cfg \<and>
      ys = [SetFailed (failure_prefix @ errorMessage w err)] \<and> c = Returned \<and> exitCode s = 1"
proof -
  define A :: "'r event" where "A = AccessSecret r enc (Inl err)"
  have pre: "A \<notin> set (preflight w)"
    using preflight_events [of A w] by (auto simp add: A_def)
  have ok: "\<not> forbidden (axios_get w)"
  proof
    assume f: "forbidden (axios_get w)"
    from run have "trace s = preflight w"
      by (auto simp add: run_forbidden [OF f] preflight_forbidden [OF f])
    with at pre show False by (simp add: A_def)
  qed
  have no: "A \<notin> set (preflight w
      @ concat (map (cycle (minMaskLength cfg) (exportEnvironment cfg) (encoding cfg))
             (zip (secretsRefs cfg) vs)))" for vs
    using pre cycles_no_failure [of r enc err] by (simp add: A_def)
  have "A \<in> set (trace s)" by (simp add: at A_def)
  from run cfg ok show ?thesis
  proof (cases rule: run_cases)
    case (complete vs)
    with no [of vs] \<open>A \<in> set (trace s)\<close> show ?thesis by simp
  next
    case (at_output vs err' v)
    with no [of vs] \<open>A \<in> set (trace s)\<close> cycle_no_failure [of r enc err] show ?thesis
      by (auto simp add: A_def)
  next
    case (at_export vs err' v)
    with no [of vs] \<open>A \<in> set (trace s)\<close> cycle_no_failure [of r enc err] show ?thesis
      by (auto simp add: A_def)
  next
    case (at_fetch vs err')
    define body where "body = preflight w @
              concat (map (cycle (minMaskLength cfg) (exportEnvironment cfg) (encoding cfg))
                (zip (secretsRefs cfg) vs))"
    have nb: "A \<notin> set body" using no [of vs] by (simp add: body_def)
    have tr: "trace s = body @ [AccessSecret (secretsRefs cfg ! length vs) (encoding cfg) (Inl err'),
                 SetFailed (failure_prefix @ errorMessage w err')]"
      by (simp add: at_fetch(5) body_def)
    from tr at have "xs @ A # ys = body @ [AccessSecret (secretsRefs cfg ! length vs) (encoding cfg) (Inl err'),
                 SetFailed (failure_prefix @ errorMessage w err')]"
      by (simp add: A_def)
    from split_past [OF this nb] obtain xs' where xs: "xs = body @ xs'"
      and post: "[AccessSecret (secretsRefs cfg ! length vs) (encoding cfg) (Inl err'),
                 SetFailed (failure_prefix @ errorMessage w err')] = xs' @ A # ys"
      by blast
    from post have "xs' = [] \<and> A = AccessSecret (secretsRefs cfg ! length vs) (encoding cfg) (Inl err')
        \<and> ys = [SetFailed (failure_prefix @ errorMessage w err')]"
      by (cases xs'; cases "tl xs'") (auto simp add: A_def)
    then have "xs = body" "r = secretsRefs cfg ! length vs" "enc = encoding cfg"
      "ys = [SetFailed (failure_prefix @ errorMessage w err)]"
      using xs by (simp_all add: A_def)
    with at_fetch(2,3,4) have "length vs < length (secretsRefs cfg) \<and>
      xs = preflight w @ concat (map (cycle (minMaskLength cfg) (exportEnvironment cfg) (encoding cfg))
             (zip (secretsRefs cfg) vs)) \<and>
      r = secretsRefs cfg ! length vs \<and> enc = encoding cfg \<and>
      ys = [SetFailed (failure_prefix @ errorMessage w err)] \<and> c = Returned \<and> exitCode s = 1"
      by (simp add: body_def)
    then show ?thesis by (rule exI)
  qed
qed

subsection \<open>The loop as a list of calls\<close>

lemma loop_events_same_store:
  "accessSecret w' = accessSecret w \<Longrightarrow> core_setOutput w' = core_setOutput w \<Longrightarrow>
   core_exportVariable w' = core_exportVariable w \<Longrightarrow>
     loop_events w' minLen exportEnv enc refs cl tk = loop_events w minLen exportEnv enc refs cl tk"
  by (induction refs arbitrary: cl tk exportEnv)
    (simp_all split: prod.splits sum.splits option.splits)

subsection \<open>A minimum mask length that is not a number\<close>

lemma masked_NaN: "masked NaN val = []"
  by (simp add: masked_def)

lemma filter_masks: "filter (\<lambda>ev. \<not> is_setSecret ev) (map SetSecret ls) = []"
  by (induction ls) simp_all

lemma filter_cycle:
  "filter (\<lambda>ev. \<not> is_setSecret ev) (cycle minLen exportEnv enc rv) = cycle NaN exportEnv enc rv"
  by (simp add: cycle_def masked_NaN filter_masks)

lemma loop_events_NaN:
  "loop_events w NaN exportEnv enc refs cl tk =
     (filter (\<lambda>ev. \<not> is_setSecret ev) (fst (loop_events w minLen exportEnv enc refs cl tk)),
      snd (loop_events w minLen exportEnv enc refs cl tk))"
proof (induction refs arbitrary: cl tk)
  case Nil
  show ?case by simp
next
  case (Cons ref refs)
  obtain r cl' where acc: "accessSecret w cl ref enc = (r, cl')"
    by (cases "accessSecret w cl ref enc")
  show ?case
  proof (cases r)
    case (Inl err)
    with acc show ?thesis by simp
  next
    case (Inr val)
    obtain thr tk1 where so: "core_setOutput w tk (output ref) val = (thr, tk1)"
      by (cases "core_setOutput w tk (output ref) val")
    obtain thr' tk2 where ev: "core_exportVariable w tk1 (output ref) val = (thr', tk2)"
      by (cases "core_exportVariable w tk1 (output ref) val")
    from acc Inr so ev Cons.IH [of cl' tk1] Cons.IH [of cl' tk2] show ?thesis
      by (cases thr; cases thr'; cases exportEnv) (simp_all add: split_beta filter_cycle)
  qed
qed

lemma registered_filter: "registered (filter (\<lambda>ev. \<not> is_setSecret ev) t) = []"
  by (induction t rule: registered.induct) simp_all

lemma set_outputs_filter: "set_outputs (filter (\<lambda>ev. \<not> is_setSecret ev) t) = set_outputs t"
  by (induction t rule: set_outputs.induct) simp_all

lemma exported_filter: "exported (filter (\<lambda>ev. \<not> is_setSecret ev) t) = exported t"
  by (induction t rule: exported.induct) simp_all

lemma filter_preflight: "filter (\<lambda>ev. \<not> is_setSecret ev) (preflight w) = preflight w"
  by (cases "forbidden (axios_get w)") (simp_all add: preflight_forbidden preflight_passes)

lemma preflight_with [simp]: "preflight (with_min_mask_length str w) = preflight w"
  by (simp add: preflight_def validateSubscription_def with_min_mask_length_def)

lemma read_inputs_with:
  "getInput w ''min_mask_length'' False = Inr str \<Longrightarrow>
     read_inputs (with_min_mask_length str' w) =
       (case read_inputs w of
          Inl err \<Rightarrow> Inl err
        | Inr cfg \<Rightarrow> Inr (cfg\<lparr>minMaskLength := parseInt str'\<rparr>))"
  by (simp add: read_inputs_def with_min_mask_length_def split: sum.splits)

lemma read_inputs_minMaskLength:
  "getInput w ''min_mask_length'' False = Inr str \<Longrightarrow> read_inputs w = Inr cfg \<Longrightarrow>
     minMaskLength cfg = parseInt str"
  by (auto simp add: read_inputs_def split: sum.splits)


subsection \<open>The inputs do not depend on the subscription check\<close>

lemma read_inputs_cong:
  assumes "getInput w' = getInput w" and "parseBoolean w' = parseBoolean w"
    and "newClient w' = newClient w" and "parseSecretsRefs w' = parseSecretsRefs w"
  shows "read_inputs w' = read_inputs w"
  unfolding read_inputs_def assms by (rule refl)

lemma read_inputs_axios [simp]: "read_inputs (w\<lparr>axios_get := r\<rparr>) = read_inputs w"
  by (rule read_inputs_cong) simp_all

lemma soft_failure_run:
  fixes w :: "('c, 'r, 't) world"
  assumes no403: "axios_get w \<noteq> Rejected True (Some 403)" and failed: "axios_get w \<noteq> Resolved"
  shows "trace (fst (run w)) = AxiosGet (axios_get w)
           # Info (utf16 ''Timeout or API not reachable. Continuing to next step.'')
           # tl (trace (fst (run (w\<lparr>axios_get := Resolved\<rparr>))))
         \<and> hd (trace (fst (run (w\<lparr>axios_get := Resolved\<rparr>)))) = AxiosGet Resolved
         \<and> snd (run w) = snd (run (w\<lparr>axios_get := Resolved\<rparr>))
         \<and> exitCode (fst (run w)) = exitCode (fst (run (w\<lparr>axios_get := Resolved\<rparr>)))"
proof -
  define w' where "w' = w\<lparr>axios_get := Resolved\<rparr>"
  have same: "axios_get w' = Resolved" "errorMessage w' = errorMessage w"
    "accessSecret w' = accessSecret w" "read_inputs w' = read_inputs w"
    "core_setOutput w' = core_setOutput w" "core_exportVariable w' = core_exportVariable w"
    "core_state w' = core_state w"
    by (simp_all add: w'_def)
  have ok: "\<not> forbidden (axios_get w)" using no403 by (simp add: forbidden_def)
  have ok': "\<not> forbidden (axios_get w')" by (simp add: forbidden_def same)
  have p: "preflight w = [AxiosGet (axios_get w),
      Info (utf16 ''Timeout or API not reachable. Continuing to next step.'')]"
    using failed by (simp add: preflight_passes [OF ok])
  have p': "preflight w' = [AxiosGet Resolved]"
    by (simp add: preflight_passes [OF ok'] same)
  have "trace (fst (run w)) = AxiosGet (axios_get w)
           # Info (utf16 ''Timeout or API not reachable. Continuing to next step.'')
           # tl (trace (fst (run w')))
         \<and> hd (trace (fst (run w'))) = AxiosGet Resolved
         \<and> snd (run w) = snd (run w')
         \<and> exitCode (fst (run w)) = exitCode (fst (run w'))"
  proof (cases "read_inputs w")
    case (Inl err)
    then have i': "read_inputs w' = Inl err" by (simp add: same)
    have r: "run w = (\<lparr>trace = preflight w @ [SetFailed (failure_prefix @ errorMessage w err)],
          exitCode = 1\<rparr>, Returned)"
      by (rule run_config_error [OF ok Inl])
    have r': "run w' = (\<lparr>trace = preflight w' @ [SetFailed (failure_prefix @ errorMessage w' err)],
          exitCode = 1\<rparr>, Returned)"
      by (rule run_config_error [OF ok' i'])
    show ?thesis unfolding r r' p p' by (simp add: same)
  next
    case (Inr cfg)
    then have cfg': "read_inputs w' = Inr cfg" by (simp add: same)
    obtain evs res where L: "loop_events w (minMaskLength cfg) (exportEnvironment cfg)
        (encoding cfg) (secretsRefs cfg) (client cfg) (core_state w) = (evs, res)"
      by (cases "loop_events w (minMaskLength cfg) (exportEnvironment cfg)
        (encoding cfg) (secretsRefs cfg) (client cfg) (core_state w)")
    have L': "loop_events w' (minMaskLength cfg) (exportEnvironment cfg)
        (encoding cfg) (secretsRefs cfg) (client cfg) (core_state w') = (evs, res)"
      using L by (simp add: loop_events_same_store [OF same(3,5,6)] same(7))
    note r = run_eq [OF ok Inr L]
    note r' = run_eq [OF ok' cfg' L']
    show ?thesis unfolding r r' p p' by (cases res) (simp_all add: same)
  qed
  then show ?thesis unfolding w'_def .
qed

lemma run_starts_with_check:
  fixes w :: "('c, 'r, 't) world"
  shows "\<exists>rest. trace (fst (run w)) = AxiosGet (axios_get w) # rest"
proof (cases "forbidden (axios_get w)")
  case True
  then show ?thesis by (simp add: run_forbidden)
next
  case False
  show ?thesis
  proof (cases "read_inputs w")
    case (Inl err)
    with False show ?thesis by (simp add: run_config_error preflight_passes)
  next
    case (Inr cfg)
    obtain s c where r: "run w = (s, c)" by (cases "run w")
    from run_calls [OF r Inr] obtain brvs post where
      "trace s = preflight w
        @ concat (map (\<lambda>brv. cycle (minMaskLength cfg) (fst brv) (encoding cfg) (snd brv)) brvs)
        @ post"
      by blast
    with False r show ?thesis by (simp add: preflight_passes)
  qed
qed

subsection \<open>Calls that throw\<close>

lemma cycles_no_report:
  "SetFailed msg \<notin> set (concat (map (cycle m e enc) rvs))"
  by (induction rvs) (auto simp add: cycle_def)

lemma body_no_report:
  "SetFailed msg \<notin> set (preflight w @ concat (map (cycle m e enc) rvs))"
  using preflight_events [of "SetFailed msg" w] cycles_no_report [of msg m e enc rvs] by auto

lemma no_report_no_throw:
  assumes "\<forall>msg. SetFailed msg \<notin> set t"
  shows "\<not> output_threw t" and "\<not> export_threw t"
proof -
  show "\<not> output_threw t"
  proof
    assume "output_threw t"
    then obtain msg rest where "rev t = SetFailed msg # rest"
      by (auto simp add: output_threw_def split: list.splits event.splits)
    then have "SetFailed msg \<in> set (rev t)" by simp
    with assms show False by simp
  qed
  show "\<not> export_threw t"
  proof
    assume "export_threw t"
    then obtain msg rest where "rev t = SetFailed msg # rest"
      by (auto simp add: export_threw_def split: list.splits event.splits)
    then have "SetFailed msg \<in> set (rev t)" by simp
    with assms show False by simp
  qed
qed

lemma threw_after:
  "output_threw (xs @ [a, SetFailed msg]) = (case a of SetOutput n v \<Rightarrow> True | _ \<Rightarrow> False)"
  "export_threw (xs @ [a, SetFailed msg]) = (case a of ExportVariable n v \<Rightarrow> True | _ \<Rightarrow> False)"
  by (simp_all add: output_threw_def export_threw_def split: event.splits)

lemma cycle_last:
  "cycle m False enc rv
     = (AccessSecret (fst rv) enc (Inr (snd rv)) # map SetSecret (masked m (snd rv)))
       @ [SetOutput (output (fst rv)) (snd rv)]"
  "cycle m True enc rv
     = (AccessSecret (fst rv) enc (Inr (snd rv)) # map SetSecret (masked m (snd rv))
        @ [SetOutput (output (fst rv)) (snd rv)])
       @ [ExportVariable (output (fst rv)) (snd rv)]"
  by (simp_all add: cycle_def)

lemma threw_after_cycle:
  "output_threw (xs @ cycle m False enc rv @ [SetFailed msg])"
  "\<not> export_threw (xs @ cycle m False enc rv @ [SetFailed msg])"
  "\<not> output_threw (xs @ cycle m True enc rv @ [SetFailed msg])"
  "export_threw (xs @ cycle m True enc rv @ [SetFailed msg])"
proof -
  have a: "xs @ cycle m False enc rv @ [SetFailed msg]
      = (xs @ AccessSecret (fst rv) enc (Inr (snd rv)) # map SetSecret (masked m (snd rv)))
        @ [SetOutput (output (fst rv)) (snd rv), SetFailed msg]"
    by (simp add: cycle_def)
  have b: "xs @ cycle m True enc rv @ [SetFailed msg]
      = (xs @ AccessSecret (fst rv) enc (Inr (snd rv)) # map SetSecret (masked m (snd rv))
           @ [SetOutput (output (fst rv)) (snd rv)])
        @ [ExportVariable (output (fst rv)) (snd rv), SetFailed msg]"
    by (simp add: cycle_def)
  show "output_threw (xs @ cycle m False enc rv @ [SetFailed msg])"
    "\<not> export_threw (xs @ cycle m False enc rv @ [SetFailed msg])"
    unfolding a by (simp_all only: threw_after event.case simp_thms)
  show "\<not> output_threw (xs @ cycle m True enc rv @ [SetFailed msg])"
    "export_threw (xs @ cycle m True enc rv @ [SetFailed msg])"
    unfolding b by (simp_all only: threw_after event.case simp_thms)
qed

lemma threw_after_failure:
  "\<not> output_threw (xs @ [AccessSecret r enc res, SetFailed msg])"
  "\<not> export_threw (xs @ [AccessSecret r enc res, SetFailed msg])"
  by (simp_all add: threw_after)

subsection \<open>What a run fetched and published\<close>

lemma run_observed:
  fixes w :: "('c, 'r, 't) world"
  assumes run: "run w = (s, c)" and cfg: "read_inputs w = Inr cfg"
  shows "map fst (fetched (trace s)) = take (length (fetched (trace s))) (secretsRefs cfg)"
    and "set_outputs (trace s) = map published (fetched (trace s))"
    and "exported (trace s) = (if exportEnvironment cfg then bound_outputs (trace s) else [])"
    and "output_threw (trace s) =
          (\<not> forbidden (axios_get w) \<and>
           thrown_by w (exportEnvironment cfg) (encoding cfg) (secretsRefs cfg) (client cfg)
             (core_state w) = Some BySetOutput)"
    and "export_threw (trace s) =
          (\<not> forbidden (axios_get w) \<and>
           thrown_by w (exportEnvironment cfg) (encoding cfg) (secretsRefs cfg) (client cfg)
             (core_state w) = Some ByExportVariable)"
    and "exit_status (s, c) = 0 \<longrightarrow>
           map fst (fetched (trace s)) = secretsRefs cfg \<and> \<not> output_threw (trace s)
           \<and> \<not> export_threw (trace s) \<and> (\<forall>msg. SetFailed msg \<notin> set (trace s))"
    and "exit_status (s, c) = 0 \<or> exit_status (s, c) = 1"
proof -
  define m where "m = minMaskLength cfg"
  define e where "e = exportEnvironment cfg"
  define enc where "enc = encoding cfg"
  define refs where "refs = secretsRefs cfg"
  define who where "who = thrown_by w e enc refs (client cfg) (core_state w)"
  define body where "body vs = preflight w @ concat (map (cycle m e enc) (zip refs vs))" for vs
  have ob: "fetched (body vs) = zip refs vs" "set_outputs (body vs) = map published (zip refs vs)"
    "exported (body vs) = (if e then map published (zip refs vs) else [])" for vs
    by (simp_all add: body_def fetched_append set_outputs_append exported_append
        observe_preflight observe_cycles)
  have nr: "\<forall>msg. SetFailed msg \<notin> set (body vs)" for vs
    unfolding body_def using body_no_report by blast
  have all: "map fst (fetched (trace s)) = take (length (fetched (trace s))) refs
    \<and> set_outputs (trace s) = map published (fetched (trace s))
    \<and> exported (trace s) = (if e then bound_outputs (trace s) else [])
    \<and> output_threw (trace s) = (\<not> forbidden (axios_get w) \<and> who = Some BySetOutput)
    \<and> export_threw (trace s) = (\<not> forbidden (axios_get w) \<and> who = Some ByExportVariable)
    \<and> (exit_status (s, c) = 0 \<longrightarrow>
           map fst (fetched (trace s)) = refs \<and> \<not> output_threw (trace s)
           \<and> \<not> export_threw (trace s) \<and> (\<forall>msg. SetFailed msg \<notin> set (trace s)))
    \<and> (exit_status (s, c) = 0 \<or> exit_status (s, c) = 1)"
  proof (cases "forbidden (axios_get w)")
    case True
    from run have tr: "trace s = [AxiosGet (axios_get w),
          ErrorLog (utf16 ''Subscription is not valid. Reach out to support@stepsecurity.io'')]"
      and c: "c = Exited 1"
      by (auto simp add: run_forbidden [OF True])
    show ?thesis
      by (simp add: tr c True exit_status_def output_threw_def export_threw_def bound_outputs_def)
  next
    case False
    from run cfg False show ?thesis
    proof (cases rule: run_cases)
      case (complete vs)
      have tr: "trace s = body vs" by (simp add: complete(5) body_def m_def e_def enc_def refs_def)
      have w: "who = None" by (simp add: who_def complete(1) e_def enc_def refs_def)
      have len: "length vs = length refs" by (simp add: complete(2) refs_def)
      note nt = no_report_no_throw [OF nr [of vs]]
      show ?thesis
        using nt nr [of vs] len
        by (simp add: tr ob w bound_outputs_def map_fst_zip_take exit_status_def complete(3,4))
    next
      case (at_fetch vs err)
      have tr: "trace s = body vs @ [AccessSecret (refs ! length vs) enc (Inl err),
            SetFailed (failure_prefix @ errorMessage w err)]"
        by (simp add: at_fetch(5) body_def m_def e_def enc_def refs_def)
      have w: "who = Some ByAccessSecret" by (simp add: who_def at_fetch(1) e_def enc_def refs_def)
      have len: "length vs < length refs" by (simp add: at_fetch(2) refs_def)
      show ?thesis
        using len False
        by (simp add: tr ob w bound_outputs_def threw_after_failure map_fst_zip_take
            exit_status_def at_fetch(3,4) fetched_append set_outputs_append exported_append)
    next
      case (at_output vs err v)
      have tr: "trace s = body vs @ cycle m False enc (refs ! length vs, v)
            @ [SetFailed (failure_prefix @ errorMessage w err)]"
        by (simp add: at_output(5) body_def m_def e_def enc_def refs_def)
      have w: "who = Some BySetOutput" by (simp add: who_def at_output(1) e_def enc_def refs_def)
      have len: "length vs < length refs" by (simp add: at_output(2) refs_def)
      show ?thesis
        using len False
        by (simp add: tr ob w bound_outputs_def threw_after_cycle map_fst_zip_take
            exit_status_def at_output(3,4) fetched_append set_outputs_append exported_append
            observe_cycle take_Suc_conv_app_nth)
    next
      case (at_export vs err v)
      have tr: "trace s = body vs @ cycle m True enc (refs ! length vs, v)
            @ [SetFailed (failure_prefix @ errorMessage w err)]"
        by (simp add: at_export(6) body_def m_def e_def enc_def refs_def)
      have w: "who = Some ByExportVariable" by (simp add: who_def at_export(1) e_def enc_def refs_def)
      have len: "length vs < length refs" by (simp add: at_export(2) refs_def)
      have e: e by (simp add: e_def at_export(5))
      show ?thesis
        using len False e
        by (simp add: tr ob w bound_outputs_def threw_after_cycle map_fst_zip_take
            exit_status_def at_export(3,4) fetched_append set_outputs_append exported_append
            observe_cycle take_Suc_conv_app_nth)
    qed
  qed
  from all show "map fst (fetched (trace s)) = take (length (fetched (trace s))) (secretsRefs cfg)"
    unfolding refs_def by (elim conjE)
  from all show "set_outputs (trace s) = map published (fetched (trace s))"
    by (elim conjE)
  from all show "exported (trace s) = (if exportEnvironment cfg then bound_outputs (trace s) else [])"
    unfolding e_def by (elim conjE)
  from all show "output_threw (trace s) =
          (\<not> forbidden (axios_get w) \<and>
           thrown_by w (exportEnvironment cfg) (encoding cfg) (secretsRefs cfg) (client cfg)
             (core_state w) = Some BySetOutput)"
    unfolding who_def e_def enc_def refs_def by (elim conjE)
  from all show "export_threw (trace s) =
          (\<not> forbidden (axios_get w) \<and>
           thrown_by w (exportEnvironment cfg) (encoding cfg) (secretsRefs cfg) (client cfg)
             (core_state w) = Some ByExportVariable)"
    unfolding who_def e_def enc_def refs_def by (elim conjE)
  from all show "exit_status (s, c) = 0 \<longrightarrow>
           map fst (fetched (trace s)) = secretsRefs cfg \<and> \<not> output_threw (trace s)
           \<and> \<not> export_threw (trace s) \<and> (\<forall>msg. SetFailed msg \<notin> set (trace s))"
    unfolding refs_def by (elim conjE)
  from all show "exit_status (s, c) = 0 \<or> exit_status (s, c) = 1"
    by (elim conjE)
qed

subsection \<open>Outputs bound several times\<close>

lemma foldl_upd_other:
  "k \<notin> fst ` set kvs \<Longrightarrow> foldl bind_output m0 kvs k = m0 k"
  by (induction kvs arbitrary: m0) (simp_all add: bind_output_def)

lemma foldl_upd_last:
  "j < length kvs \<Longrightarrow> (\<forall>k. j < k \<and> k < length kvs \<longrightarrow> fst (kvs ! k) \<noteq> fst (kvs ! j)) \<Longrightarrow>
     foldl bind_output m0 kvs (fst (kvs ! j)) = Some (snd (kvs ! j))"
proof (induction kvs arbitrary: m0 j)
  case Nil
  then show ?case by simp
next
  case (Cons kv kvs)
  show ?case
  proof (cases j)
    case 0
    have "fst kv \<notin> fst ` set kvs"
    proof
      assume "fst kv \<in> fst ` set kvs"
      then obtain i where "i < length kvs" "fst (kvs ! i) = fst kv"
        by (auto simp add: in_set_conv_nth)
      with Cons.prems(2) [rule_format, of "Suc i"] 0 show False by simp
    qed
    then have "foldl bind_output (bind_output m0 kv) kvs (fst kv) = bind_output m0 kv (fst kv)"
      by (rule foldl_upd_other)
    also have "\<dots> = Some (snd kv)" by (simp add: bind_output_def)
    finally show ?thesis using 0 by simp
  next
    case (Suc j')
    with Cons.prems(1) have j': "j' < length kvs" by simp
    have later: "\<forall>k. j' < k \<and> k < length kvs \<longrightarrow> fst (kvs ! k) \<noteq> fst (kvs ! j')"
    proof (intro allI impI)
      fix k assume "j' < k \<and> k < length kvs"
      with Cons.prems(2) [rule_format, of "Suc k"] Suc show "fst (kvs ! k) \<noteq> fst (kvs ! j')"
        by simp
    qed
    from Cons.IH [OF j' later] Suc show ?thesis by simp
  qed
qed

subsection \<open>Where an error in the inputs comes from\<close>


text \<open>The definitions to unfold when the program is run on an example.\<close>

lemmas example_simps = example_def store_answers_def read_inputs_def run_def try_block_def
  validateSubscription_def initial_def emit_def info_def error_log_def setSecret_def setOutput_def
  exportVariable_def file_setOutput_def file_exportVariable_def setFailed_def mask_lines_def split.simps(2) CR_def LF_def utf16_def
  parseInt_def isWhiteSpace_def isRadixDigit_def digitValue_def mathInt_def Let_def failure_prefix_def

section \<open>The properties of a run\<close>

subsection \<open>Masking\<close>

text \<open>
  Claim C1. Take any run that read its inputs, with an integer minimum mask length \<open>m\<close>,
  and any store request in it that returned a value \<open>v\<close>. The calls that follow the request
  are one \<open>setSecret\<close> for each line of \<open>v\<close> that is not empty and at least \<open>m\<close> code
  units long, in the order of the lines and nothing else, and then the \<open>setOutput\<close> of the
  value: empty lines and shorter lines are not registered. The lines are those of
  \<open>split\<close>, which cuts at \<open>\r\n\<close>, \<open>\r\<close> and \<open>\n\<close>: no line holds a carriage return or a line
  feed, and the lines joined by line feeds are the value with every break written as a
  line feed. For the value \<open>a\nbb\nccc\<close> and \<open>min_mask_length = 2\<close> the registered lines are
  \<open>bb\<close> and \<open>ccc\<close>, not \<open>a\<close>.
\<close>

theorem masking_policy:
  fixes w :: "('c, 'r, 't) world"
  assumes "run w = (s, c)" and "read_inputs w = Inr cfg" and "minMaskLength cfg = Integer m"
    and "trace s = xs @ AccessSecret r enc (Inr v) # ys"
  shows "(\<exists>zs. ys = map SetSecret (filter (\<lambda>line. line \<noteq> [] \<and> m \<le> int (length line)) (split v))
            @ SetOutput (output r) v # zs)
    \<and> join_lines (split v) = line_feeds v
    \<and> (\<forall>line \<in> set (split v). CR \<notin> set line \<and> LF \<notin> set line)"
proof -
  have "masked (minMaskLength cfg) v = filter (\<lambda>line. line \<noteq> [] \<and> m \<le> int (length line)) (split v)"
    by (simp add: masked_def assms(3))
  with run_at_fetch [OF assms(1,2,4)]
  have "\<exists>zs. ys = map SetSecret (filter (\<lambda>line. line \<noteq> [] \<and> m \<le> int (length line)) (split v))
            @ SetOutput (output r) v # zs"
    by simp
  moreover have "\<forall>line \<in> set (split v). CR \<notin> set line \<and> LF \<notin> set line"
    using split_no_break by blast
  ultimately show ?thesis using join_split by blast
qed

theorem masking_policy_witness:
  "run (example Resolved ''2'' False [''OUT''] [Inr (utf16 ''a\<newline>bb\<newline>ccc'')])
     = (\<lparr>trace = [AxiosGet Resolved]
          @ AccessSecret \<lparr>output = utf16 ''OUT''\<rparr> (utf16 ''utf8'') (Inr (utf16 ''a\<newline>bb\<newline>ccc''))
          # [SetSecret (utf16 ''bb''), SetSecret (utf16 ''ccc''),
             SetOutput (utf16 ''OUT'') (utf16 ''a\<newline>bb\<newline>ccc'')],
         exitCode = 0\<rparr>, Returned)
   \<and> filter (\<lambda>line. line \<noteq> [] \<and> 2 \<le> int (length line)) (split (utf16 ''a\<newline>bb\<newline>ccc''))
       = [utf16 ''bb'', utf16 ''ccc'']
   \<and> (\<exists>zs. [SetSecret (utf16 ''bb'') :: unit event, SetSecret (utf16 ''ccc''),
             SetOutput (utf16 ''OUT'') (utf16 ''a\<newline>bb\<newline>ccc'')]
         = map SetSecret (filter (\<lambda>line. line \<noteq> [] \<and> 2 \<le> int (length line))
             (split (utf16 ''a\<newline>bb\<newline>ccc'')))
           @ SetOutput (output \<lparr>output = utf16 ''OUT''\<rparr>) (utf16 ''a\<newline>bb\<newline>ccc'') # zs)
   \<and> join_lines (split (utf16 ''a\<newline>bb\<newline>ccc'')) = line_feeds (utf16 ''a\<newline>bb\<newline>ccc'')"
proof -
  let ?w = "example Resolved ''2'' False [''OUT''] [Inr (utf16 ''a\<newline>bb\<newline>ccc'')]"
  let ?s = "\<lparr>trace = [AxiosGet Resolved]
          @ AccessSecret \<lparr>output = utf16 ''OUT''\<rparr> (utf16 ''utf8'') (Inr (utf16 ''a\<newline>bb\<newline>ccc''))
          # [SetSecret (utf16 ''bb''), SetSecret (utf16 ''ccc''),
             SetOutput (utf16 ''OUT'') (utf16 ''a\<newline>bb\<newline>ccc'')],
         exitCode = 0\<rparr> :: unit state"
  let ?cfg = "\<lparr>minMaskLength = Integer 2, exportEnvironment = False, encoding = utf16 ''utf8'',
      client = 0::nat, secretsRefs = [\<lparr>output = utf16 ''OUT''\<rparr>]\<rparr>"
  have h1: "run ?w = (?s, Returned)" by (simp add: example_simps)
  have h2: "read_inputs ?w = Inr ?cfg" by (simp add: example_simps)
  have h3: "minMaskLength ?cfg = Integer 2" by simp
  have h4: "trace ?s = [AxiosGet Resolved]
          @ AccessSecret \<lparr>output = utf16 ''OUT''\<rparr> (utf16 ''utf8'') (Inr (utf16 ''a\<newline>bb\<newline>ccc''))
          # [SetSecret (utf16 ''bb''), SetSecret (utf16 ''ccc''),
             SetOutput (utf16 ''OUT'') (utf16 ''a\<newline>bb\<newline>ccc'')]"
    by simp
  have h5: "filter (\<lambda>line. line \<noteq> [] \<and> 2 \<le> int (length line)) (split (utf16 ''a\<newline>bb\<newline>ccc''))
       = [utf16 ''bb'', utf16 ''ccc'']"
    by (simp add: example_simps)
  note r = masking_policy [OF h1 h2 h3 h4]
  show ?thesis
    by (intro conjI h1 h5 r [THEN conjunct1] r [THEN conjunct2, THEN conjunct1])
qed

text \<open>
  Claim C2. In any run that read its inputs, whatever comes before a call
  \<open>setOutput n v\<close> ends with the store request that returned \<open>v\<close> for a reference with
  output name \<open>n\<close>, followed by all the registrations of the lines of \<open>v\<close> that are to be
  masked; and whatever comes before a call \<open>exportVariable n v\<close> ends with that request,
  those registrations and the call \<open>setOutput n v\<close>. So every registration for a value is
  made before the value is written to the output or bound to the environment variable.
\<close>

theorem mask_before_publish:
  fixes w :: "('c, 'r, 't) world"
  assumes "run w = (s, c)" and "read_inputs w = Inr cfg"
  shows "(trace s = xs @ SetOutput n v # ys \<longrightarrow>
       (\<exists>pre r. xs = pre @ AccessSecret r (encoding cfg) (Inr v)
            # map SetSecret (filter (\<lambda>line. line \<noteq> [] \<and> length_ge line (minMaskLength cfg)) (split v))
          \<and> output r = n))
    \<and> (trace s = xs @ ExportVariable n v # ys \<longrightarrow>
       (\<exists>pre r. xs = pre @ AccessSecret r (encoding cfg) (Inr v)
            # map SetSecret (filter (\<lambda>line. line \<noteq> [] \<and> length_ge line (minMaskLength cfg)) (split v))
            @ [SetOutput n v]
          \<and> output r = n))"
  using run_at_output [OF assms, of xs n v ys] run_at_export [OF assms, of xs n v ys]
  unfolding masked_def by blast

theorem mask_before_publish_witness:
  "run (example Resolved ''2'' True [''OUT''] [Inr (utf16 ''a\<newline>bb'')])
     = (\<lparr>trace = [AxiosGet Resolved,
           AccessSecret \<lparr>output = utf16 ''OUT''\<rparr> (utf16 ''utf8'') (Inr (utf16 ''a\<newline>bb'')),
           SetSecret (utf16 ''bb''),
           SetOutput (utf16 ''OUT'') (utf16 ''a\<newline>bb''),
           ExportVariable (utf16 ''OUT'') (utf16 ''a\<newline>bb'')],
         exitCode = 0\<rparr>, Returned)
   \<and> (\<exists>pre r. [AxiosGet Resolved,
           AccessSecret \<lparr>output = utf16 ''OUT''\<rparr> (utf16 ''utf8'') (Inr (utf16 ''a\<newline>bb'')),
           SetSecret (utf16 ''bb'')]
        = pre @ AccessSecret r (utf16 ''utf8'') (Inr (utf16 ''a\<newline>bb'')) # map SetSecret [utf16 ''bb'']
        \<and> output r = utf16 ''OUT'')
   \<and> (\<exists>pre r. [AxiosGet Resolved,
           AccessSecret \<lparr>output = utf16 ''OUT''\<rparr> (utf16 ''utf8'') (Inr (utf16 ''a\<newline>bb'')),
           SetSecret (utf16 ''bb''),
           SetOutput (utf16 ''OUT'') (utf16 ''a\<newline>bb'')]
        = pre @ AccessSecret r (utf16 ''utf8'') (Inr (utf16 ''a\<newline>bb'')) # map SetSecret [utf16 ''bb'']
            @ [SetOutput (utf16 ''OUT'') (utf16 ''a\<newline>bb'')]
        \<and> output r = utf16 ''OUT'')"
proof -
  let ?w = "example Resolved ''2'' True [''OUT''] [Inr (utf16 ''a\<newline>bb'')]"
  let ?v = "utf16 ''a\<newline>bb''"
  let ?xs = "[AxiosGet Resolved,
           AccessSecret \<lparr>output = utf16 ''OUT''\<rparr> (utf16 ''utf8'') (Inr ?v),
           SetSecret (utf16 ''bb'')] :: unit event list"
  let ?s = "\<lparr>trace = [AxiosGet Resolved,
           AccessSecret \<lparr>output = utf16 ''OUT''\<rparr> (utf16 ''utf8'') (Inr ?v),
           SetSecret (utf16 ''bb''),
           SetOutput (utf16 ''OUT'') ?v,
           ExportVariable (utf16 ''OUT'') ?v],
         exitCode = 0\<rparr> :: unit state"
  let ?cfg = "\<lparr>minMaskLength = Integer 2, exportEnvironment = True, encoding = utf16 ''utf8'',
      client = 0::nat, secretsRefs = [\<lparr>output = utf16 ''OUT''\<rparr>]\<rparr>"
  have h1: "run ?w = (?s, Returned)" by (simp add: example_simps)
  have h2: "read_inputs ?w = Inr ?cfg" by (simp add: example_simps)
  have h3: "trace ?s = ?xs @ SetOutput (utf16 ''OUT'') ?v # [ExportVariable (utf16 ''OUT'') ?v]"
    by simp
  have h4: "trace ?s = (?xs @ [SetOutput (utf16 ''OUT'') ?v]) @ ExportVariable (utf16 ''OUT'') ?v # []"
    by simp
  have h5: "filter (\<lambda>line. line \<noteq> [] \<and> length_ge line (minMaskLength ?cfg)) (split ?v) = [utf16 ''bb'']"
    by (simp add: example_simps)
  have h6: "encoding ?cfg = utf16 ''utf8''" by simp
  note a = mask_before_publish [OF h1 h2, THEN conjunct1, THEN mp, OF h3, unfolded h5 h6]
  note b = mask_before_publish [OF h1 h2, THEN conjunct2, THEN mp, OF h4, unfolded h5 h6]
  from b have b': "\<exists>pre r. [AxiosGet Resolved,
           AccessSecret \<lparr>output = utf16 ''OUT''\<rparr> (utf16 ''utf8'') (Inr (utf16 ''a\<newline>bb'')),
           SetSecret (utf16 ''bb''),
           SetOutput (utf16 ''OUT'') (utf16 ''a\<newline>bb'')]
        = pre @ AccessSecret r (utf16 ''utf8'') (Inr (utf16 ''a\<newline>bb'')) # map SetSecret [utf16 ''bb'']
            @ [SetOutput (utf16 ''OUT'') (utf16 ''a\<newline>bb'')]
        \<and> output r = utf16 ''OUT''"
    by (simp only: append_Cons append_Nil)
  show ?thesis by (intro conjI h1 a b')
qed

subsection \<open>A failing store request\<close>

text \<open>
  Claim C3. Take any run that read its inputs and in which a store request throws \<open>err\<close>.
  The only call after the request is \<open>setFailed\<close> with the failure prefix and the rendered
  error; \<open>run\<close> returns and the process ends with status 1. The failing request is the
  one for the reference at position \<open>i\<close> of the parsed list, where \<open>i\<close> is the number of
  requests that succeeded before it; those were for the first \<open>i\<close> references. The whole
  run asked the store for the first \<open>i + 1\<close> references and for no other, and its
  \<open>setOutput\<close> calls are exactly those for the \<open>i\<close> references fetched before the failure:
  what was set stays set, nothing later is fetched or published.
\<close>

theorem fetch_failure_stops_run:
  fixes w :: "('c, 'r, 't) world"
  assumes "run w = (s, c)" and "read_inputs w = Inr cfg"
    and "trace s = xs @ AccessSecret r enc (Inl err) # ys"
  shows "ys = [SetFailed (failure_prefix @ errorMessage w err)] \<and> c = Returned
    \<and> exit_status (s, c) = 1
    \<and> length (fetched xs) < length (secretsRefs cfg)
    \<and> r = secretsRefs cfg ! length (fetched xs)
    \<and> map fst (fetched xs) = take (length (fetched xs)) (secretsRefs cfg)
    \<and> requested (trace s) = take (Suc (length (fetched xs))) (secretsRefs cfg)
    \<and> fetched (trace s) = fetched xs
    \<and> set_outputs (trace s) = map published (fetched xs)"
proof -
  from run_at_failure [OF assms] obtain vs where len: "length vs < length (secretsRefs cfg)"
    and xs: "xs = preflight w @ concat (map (cycle (minMaskLength cfg) (exportEnvironment cfg) (encoding cfg))
             (zip (secretsRefs cfg) vs))"
    and r: "r = secretsRefs cfg ! length vs"
    and ys: "ys = [SetFailed (failure_prefix @ errorMessage w err)]"
    and c: "c = Returned" and ex: "exitCode s = 1"
    by blast
  have f: "fetched xs = zip (secretsRefs cfg) vs"
    by (simp add: xs fetched_append observe_preflight observe_cycles)
  have n: "length (fetched xs) = length vs" using len by (simp add: f)
  have o: "set_outputs xs = map published (zip (secretsRefs cfg) vs)"
    by (simp add: xs set_outputs_append observe_preflight observe_cycles)
  have q: "requested xs = take (length vs) (secretsRefs cfg)"
    using len by (simp add: xs requested_append observe_preflight observe_cycles map_fst_zip_take)
  have m: "map fst (fetched xs) = take (length vs) (secretsRefs cfg)"
    using len by (simp add: f map_fst_zip_take)
  have "requested (trace s) = take (length vs) (secretsRefs cfg) @ [secretsRefs cfg ! length vs]"
    by (simp add: assms(3) requested_append q r ys)
  then have rq: "requested (trace s) = take (Suc (length vs)) (secretsRefs cfg)"
    using len by (simp add: take_Suc_conv_app_nth)
  have ft: "fetched (trace s) = fetched xs"
    by (simp add: assms(3) fetched_append ys)
  have so: "set_outputs (trace s) = map published (fetched xs)"
    by (simp add: assms(3) set_outputs_append ys o f)
  show ?thesis
    using ys c ex len r m rq ft so by (simp add: n exit_status_def)
qed

theorem fetch_failure_stops_run_witness:
  "read_inputs (example Resolved ''2'' False [''A'', ''B'', ''C'']
       [Inr (utf16 ''s1''), Inl (Thrown (utf16 ''denied''))])
     = Inr \<lparr>minMaskLength = Integer 2, exportEnvironment = False, encoding = utf16 ''utf8'',
          client = 0, secretsRefs = [\<lparr>output = utf16 ''A''\<rparr>, \<lparr>output = utf16 ''B''\<rparr>,
            \<lparr>output = utf16 ''C''\<rparr>]\<rparr>
   \<and> run (example Resolved ''2'' False [''A'', ''B'', ''C'']
       [Inr (utf16 ''s1''), Inl (Thrown (utf16 ''denied''))])
     = (\<lparr>trace = [AxiosGet Resolved,
            AccessSecret \<lparr>output = utf16 ''A''\<rparr> (utf16 ''utf8'') (Inr (utf16 ''s1'')),
            SetSecret (utf16 ''s1''),
            SetOutput (utf16 ''A'') (utf16 ''s1'')]
          @ AccessSecret \<lparr>output = utf16 ''B''\<rparr> (utf16 ''utf8'') (Inl (Thrown (utf16 ''denied'')))
          # [SetFailed (failure_prefix @ utf16 ''denied'')],
         exitCode = 1\<rparr>, Returned)
   \<and> exit_status (run (example Resolved ''2'' False [''A'', ''B'', ''C'']
       [Inr (utf16 ''s1''), Inl (Thrown (utf16 ''denied''))])) = 1
   \<and> requested (trace (fst (run (example Resolved ''2'' False [''A'', ''B'', ''C'']
       [Inr (utf16 ''s1''), Inl (Thrown (utf16 ''denied''))]))))
     = [\<lparr>output = utf16 ''A''\<rparr>, \<lparr>output = utf16 ''B''\<rparr>]
   \<and> set_outputs (trace (fst (run (example Resolved ''2'' False [''A'', ''B'', ''C'']
       [Inr (utf16 ''s1''), Inl (Thrown (utf16 ''denied''))]))))
     = [(utf16 ''A'', utf16 ''s1'')]"
proof -
  let ?w = "example Resolved ''2'' False [''A'', ''B'', ''C'']
       [Inr (utf16 ''s1''), Inl (Thrown (utf16 ''denied''))]"
  let ?xs = "[AxiosGet Resolved,
            AccessSecret \<lparr>output = utf16 ''A''\<rparr> (utf16 ''utf8'') (Inr (utf16 ''s1'')),
            SetSecret (utf16 ''s1''),
            SetOutput (utf16 ''A'') (utf16 ''s1'')] :: unit event list"
  let ?s = "\<lparr>trace = ?xs
          @ AccessSecret \<lparr>output = utf16 ''B''\<rparr> (utf16 ''utf8'') (Inl (Thrown (utf16 ''denied'')))
          # [SetFailed (failure_prefix @ utf16 ''denied'')],
         exitCode = 1\<rparr> :: unit state"
  let ?cfg = "\<lparr>minMaskLength = Integer 2, exportEnvironment = False, encoding = utf16 ''utf8'',
          client = 0::nat, secretsRefs = [\<lparr>output = utf16 ''A''\<rparr>, \<lparr>output = utf16 ''B''\<rparr>,
            \<lparr>output = utf16 ''C''\<rparr>]\<rparr>"
  have h1: "run ?w = (?s, Returned)" by (simp add: example_simps)
  have h2: "read_inputs ?w = Inr ?cfg" by (simp add: example_simps)
  have h3: "trace ?s = ?xs
          @ AccessSecret \<lparr>output = utf16 ''B''\<rparr> (utf16 ''utf8'') (Inl (Thrown (utf16 ''denied'')))
          # [SetFailed (failure_prefix @ utf16 ''denied'')]"
    by simp
  note r = fetch_failure_stops_run [OF h1 h2 h3]
  from r have "exit_status (?s, Returned) = 1" by (elim conjE)
  then have a: "exit_status (run ?w) = 1" by (simp only: h1)
  from r have "requested (trace ?s) = take (Suc (length (fetched ?xs))) (secretsRefs ?cfg)"
    by (elim conjE)
  then have b: "requested (trace (fst (run ?w))) = [\<lparr>output = utf16 ''A''\<rparr>, \<lparr>output = utf16 ''B''\<rparr>]"
    by (simp add: h1)
  from r have "set_outputs (trace ?s) = map published (fetched ?xs)"
    by (elim conjE)
  then have c: "set_outputs (trace (fst (run ?w))) = [(utf16 ''A'', utf16 ''s1'')]"
    by (simp add: h1 published_def)
  show ?thesis by (intro conjI h1 h2 a b c)
qed

subsection \<open>The subscription check\<close>

text \<open>
  Claim C4. The first call of every run is the subscription request, so it precedes every
  store request. When the request is rejected with an HTTP 403 response, the run consists
  of that request and the error line pointing to support, and the process exits with
  status 1: nothing is fetched. When the request fails in any other way (a timeout, an
  unreachable network, another status, an error that is not an HTTP error), the run is the
  run of the same world with the request resolved, except that its first call is the
  failed request followed by one informational line: what is fetched and published, how
  \<open>run\<close> ends and the exit code are the same.
\<close>

theorem preflight_gate:
  fixes w :: "('c, 'r, 't) world"
  shows "(\<exists>rest. trace (fst (run w)) = AxiosGet (axios_get w) # rest)
    \<and> (axios_get w = Rejected True (Some 403) \<longrightarrow>
         run w = (\<lparr>trace = [AxiosGet (Rejected True (Some 403)),
                    ErrorLog (utf16 ''Subscription is not valid. Reach out to support@stepsecurity.io'')],
                  exitCode = 0\<rparr>, Exited 1)
         \<and> exit_status (run w) = 1)
    \<and> (axios_get w \<noteq> Rejected True (Some 403) \<longrightarrow> axios_get w \<noteq> Resolved \<longrightarrow>
         trace (fst (run w)) = AxiosGet (axios_get w)
           # Info (utf16 ''Timeout or API not reachable. Continuing to next step.'')
           # tl (trace (fst (run (w\<lparr>axios_get := Resolved\<rparr>))))
         \<and> hd (trace (fst (run (w\<lparr>axios_get := Resolved\<rparr>)))) = AxiosGet Resolved
         \<and> snd (run w) = snd (run (w\<lparr>axios_get := Resolved\<rparr>))
         \<and> exitCode (fst (run w)) = exitCode (fst (run (w\<lparr>axios_get := Resolved\<rparr>))))"
proof (intro conjI impI)
  show "\<exists>rest. trace (fst (run w)) = AxiosGet (axios_get w) # rest"
    by (rule run_starts_with_check)
next
  assume "axios_get w = Rejected True (Some 403)"
  then have f: "forbidden (axios_get w)" by (simp add: forbidden_def)
  show "run w = (\<lparr>trace = [AxiosGet (Rejected True (Some 403)),
                    ErrorLog (utf16 ''Subscription is not valid. Reach out to support@stepsecurity.io'')],
                  exitCode = 0\<rparr>, Exited 1)"
    using run_forbidden [OF f] \<open>axios_get w = Rejected True (Some 403)\<close> by simp
  show "exit_status (run w) = 1"
    by (simp add: run_forbidden [OF f] exit_status_def)
next
  assume no403: "axios_get w \<noteq> Rejected True (Some 403)" and failed: "axios_get w \<noteq> Resolved"
  note all = soft_failure_run [OF no403 failed]
  from all show "trace (fst (run w)) = AxiosGet (axios_get w)
           # Info (utf16 ''Timeout or API not reachable. Continuing to next step.'')
           # tl (trace (fst (run (w\<lparr>axios_get := Resolved\<rparr>))))"
    by (rule conjunct1)
  from all show "hd (trace (fst (run (w\<lparr>axios_get := Resolved\<rparr>)))) = AxiosGet Resolved"
    by (elim conjE)
  from all show "snd (run w) = snd (run (w\<lparr>axios_get := Resolved\<rparr>))"
    by (elim conjE)
  from all show "exitCode (fst (run w)) = exitCode (fst (run (w\<lparr>axios_get := Resolved\<rparr>)))"
    by (elim conjE)
qed

theorem preflight_gate_witness:
  "run (example (Rejected True (Some 403)) ''2'' False [''A''] [Inr (utf16 ''s1'')])
     = (\<lparr>trace = [AxiosGet (Rejected True (Some 403)),
            ErrorLog (utf16 ''Subscription is not valid. Reach out to support@stepsecurity.io'')],
          exitCode = 0\<rparr>, Exited 1)
   \<and> exit_status (run (example (Rejected True (Some 403)) ''2'' False [''A''] [Inr (utf16 ''s1'')])) = 1
   \<and> trace (fst (run (example (Rejected True None) ''2'' False [''A''] [Inr (utf16 ''s1'')])))
     = [AxiosGet (Rejected True None),
        Info (utf16 ''Timeout or API not reachable. Continuing to next step.''),
        AccessSecret \<lparr>output = utf16 ''A''\<rparr> (utf16 ''utf8'') (Inr (utf16 ''s1'')),
        SetSecret (utf16 ''s1''),
        SetOutput (utf16 ''A'') (utf16 ''s1'')]
   \<and> snd (run (example (Rejected True None) ''2'' False [''A''] [Inr (utf16 ''s1'')])) = Returned
   \<and> exitCode (fst (run (example (Rejected True None) ''2'' False [''A''] [Inr (utf16 ''s1'')]))) = 0"
proof -
  let ?denied = "example (Rejected True (Some 403)) ''2'' False [''A''] [Inr (utf16 ''s1'')]"
  let ?timeout = "example (Rejected True None) ''2'' False [''A''] [Inr (utf16 ''s1'')]"
  have d: "axios_get ?denied = Rejected True (Some 403)" by (simp add: example_def)
  have t1: "axios_get ?timeout \<noteq> Rejected True (Some 403)" by (simp add: example_def)
  have t2: "axios_get ?timeout \<noteq> Resolved" by (simp add: example_def)
  have t3: "axios_get ?timeout = Rejected True None" by (simp add: example_def)
  note a = preflight_gate [of ?denied, THEN conjunct2, THEN conjunct1, THEN mp, OF d]
  note b = preflight_gate [of ?timeout, THEN conjunct2, THEN conjunct2, THEN mp, THEN mp, OF t1 t2]
  have ok: "run (?timeout\<lparr>axios_get := Resolved\<rparr>)
     = (\<lparr>trace = [AxiosGet Resolved,
        AccessSecret \<lparr>output = utf16 ''A''\<rparr> (utf16 ''utf8'') (Inr (utf16 ''s1'')),
        SetSecret (utf16 ''s1''),
        SetOutput (utf16 ''A'') (utf16 ''s1'')], exitCode = 0\<rparr>, Returned)"
    by (simp add: example_simps)
  from b have b1: "trace (fst (run ?timeout))
     = [AxiosGet (Rejected True None),
        Info (utf16 ''Timeout or API not reachable. Continuing to next step.''),
        AccessSecret \<lparr>output = utf16 ''A''\<rparr> (utf16 ''utf8'') (Inr (utf16 ''s1'')),
        SetSecret (utf16 ''s1''),
        SetOutput (utf16 ''A'') (utf16 ''s1'')]"
    and b2: "snd (run ?timeout) = Returned"
    and b3: "exitCode (fst (run ?timeout)) = 0"
    unfolding ok t3 by simp_all
  show ?thesis by (intro conjI a [THEN conjunct1] a [THEN conjunct2] b1 b2 b3)
qed

subsection \<open>Publishing\<close>

text \<open>
  Claim C5, as amended. In any run that read its inputs, \<open>setOutput\<close> is called, in order,
  once for each store request that succeeded, under the reference's output name and with
  the whole value the store returned. When the export flag is false there is no
  \<open>exportVariable\<close> call at all; when it is true, \<open>exportVariable\<close> is called with the same
  name and the same value for each of those references whose \<open>setOutput\<close> call returned,
  and for no other. Either call can throw, and the calls tell: the run ends with a
  \<open>setOutput\<close> call (an \<open>exportVariable\<close> call) and the failure report exactly when the
  toolkit's \<open>setOutput\<close> (\<open>exportVariable\<close>) threw in the loop, and then the exit status is
  1. A run that ends with status 0 fetched every reference of the list and all its calls
  returned: each reference has its output set and, with the flag true, its environment
  variable bound, to the same whole value; with the flag false no variable is bound.
\<close>

theorem publish_calls:
  fixes w :: "('c, 'r, 't) world"
  assumes "run w = (s, c)" and "read_inputs w = Inr cfg"
  shows "set_outputs (trace s) = map published (fetched (trace s))
    \<and> exported (trace s) = (if exportEnvironment cfg then bound_outputs (trace s) else [])
    \<and> output_threw (trace s) =
        (\<not> forbidden (axios_get w) \<and>
         thrown_by w (exportEnvironment cfg) (encoding cfg) (secretsRefs cfg) (client cfg)
           (core_state w) = Some BySetOutput)
    \<and> export_threw (trace s) =
        (\<not> forbidden (axios_get w) \<and>
         thrown_by w (exportEnvironment cfg) (encoding cfg) (secretsRefs cfg) (client cfg)
           (core_state w) = Some ByExportVariable)
    \<and> (output_threw (trace s) \<or> export_threw (trace s) \<longrightarrow> exit_status (s, c) = 1)
    \<and> (exit_status (s, c) = 0 \<longrightarrow>
         map fst (fetched (trace s)) = secretsRefs cfg
         \<and> bound_outputs (trace s) = map published (fetched (trace s))
         \<and> bound_variables (trace s)
             = (if exportEnvironment cfg then map published (fetched (trace s)) else []))"
proof -
  note o = run_observed [OF assms]
  have a: "output_threw (trace s) \<or> export_threw (trace s) \<longrightarrow> exit_status (s, c) = 1"
    using o(6) o(7) by auto
  have b: "exit_status (s, c) = 0 \<longrightarrow>
         map fst (fetched (trace s)) = secretsRefs cfg
         \<and> bound_outputs (trace s) = map published (fetched (trace s))
         \<and> bound_variables (trace s)
             = (if exportEnvironment cfg then map published (fetched (trace s)) else [])"
  proof
    assume "exit_status (s, c) = 0"
    with o(6) have f: "map fst (fetched (trace s)) = secretsRefs cfg"
      and n: "\<not> output_threw (trace s)" "\<not> export_threw (trace s)"
      by simp_all
    from n have "bound_outputs (trace s) = set_outputs (trace s)"
      "bound_variables (trace s) = exported (trace s)"
      by (simp_all add: bound_outputs_def bound_variables_def)
    with f o(2) o(3) show "map fst (fetched (trace s)) = secretsRefs cfg
         \<and> bound_outputs (trace s) = map published (fetched (trace s))
         \<and> bound_variables (trace s)
             = (if exportEnvironment cfg then map published (fetched (trace s)) else [])"
      by simp
  qed
  show ?thesis by (intro conjI o(2) o(3) o(4) o(5) a b)
qed

theorem publish_calls_witness:
  "set_outputs (trace (fst (run (example Resolved ''2'' False [''A''] [Inr (utf16 ''s1'')]))))
     = [(utf16 ''A'', utf16 ''s1'')]
   \<and> exported (trace (fst (run (example Resolved ''2'' False [''A''] [Inr (utf16 ''s1'')])))) = []
   \<and> bound_variables (trace (fst (run (example Resolved ''2'' False [''A''] [Inr (utf16 ''s1'')])))) = []
   \<and> set_outputs (trace (fst (run (example Resolved ''2'' True [''A''] [Inr (utf16 ''s1'')]))))
     = [(utf16 ''A'', utf16 ''s1'')]
   \<and> exported (trace (fst (run (example Resolved ''2'' True [''A''] [Inr (utf16 ''s1'')]))))
     = [(utf16 ''A'', utf16 ''s1'')]
   \<and> bound_outputs (trace (fst (run (example Resolved ''2'' True [''A''] [Inr (utf16 ''s1'')]))))
     = [(utf16 ''A'', utf16 ''s1'')]
   \<and> bound_variables (trace (fst (run (example Resolved ''2'' True [''A''] [Inr (utf16 ''s1'')]))))
     = [(utf16 ''A'', utf16 ''s1'')]
   \<and> export_threw (trace (fst (run (example Resolved ''2'' True [''GITHUB_ENV''] [Inr (utf16 ''s1'')]))))
   \<and> exit_status (run (example Resolved ''2'' True [''GITHUB_ENV''] [Inr (utf16 ''s1'')])) = 1"
proof -
  let ?w = "\<lambda>ex. example Resolved ''2'' ex [''A''] [Inr (utf16 ''s1'')]"
  let ?cfg = "\<lambda>ex. \<lparr>minMaskLength = Integer 2, exportEnvironment = ex, encoding = utf16 ''utf8'',
          client = 0::nat, secretsRefs = [\<lparr>output = utf16 ''A''\<rparr>]\<rparr>"
  let ?v = "example Resolved ''2'' True [''GITHUB_ENV''] [Inr (utf16 ''s1'')]"
  let ?cfgv = "\<lparr>minMaskLength = Integer 2, exportEnvironment = True, encoding = utf16 ''utf8'',
          client = 0::nat, secretsRefs = [\<lparr>output = utf16 ''GITHUB_ENV''\<rparr>]\<rparr>"
  have h1: "run (?w ex) = (fst (run (?w ex)), snd (run (?w ex)))" for ex by simp
  have h2: "read_inputs (?w ex) = Inr (?cfg ex)" for ex by (simp add: example_simps)
  have f: "fetched (trace (fst (run (?w ex)))) = [(\<lparr>output = utf16 ''A''\<rparr>, utf16 ''s1'')]" for ex
    by (simp add: example_simps)
  have x: "exit_status (fst (run (?w ex)), snd (run (?w ex))) = 0" for ex
    by (simp add: example_simps exit_status_def)
  have g1: "run ?v = (fst (run ?v), snd (run ?v))" by simp
  have g2: "read_inputs ?v = Inr ?cfgv" by (simp add: example_simps)
  have g3: "\<not> forbidden (axios_get ?v) \<and>
         thrown_by ?v (exportEnvironment ?cfgv) (encoding ?cfgv) (secretsRefs ?cfgv) (client ?cfgv)
           (core_state ?v) = Some ByExportVariable"
    by (simp add: example_simps forbidden_def)
  note off = publish_calls [OF h1 h2, of False, unfolded f]
  note on = publish_calls [OF h1 h2, of True, unfolded f]
  note thr = publish_calls [OF g1 g2]
  from off have a: "set_outputs (trace (fst (run (?w False)))) = [(utf16 ''A'', utf16 ''s1'')]"
    and b: "exported (trace (fst (run (?w False)))) = []"
    by (simp_all add: published_def)
  from off x [of False] have b': "bound_variables (trace (fst (run (?w False)))) = []"
    by simp
  from on have c: "set_outputs (trace (fst (run (?w True)))) = [(utf16 ''A'', utf16 ''s1'')]"
    by (simp add: published_def)
  from on x [of True] have d: "bound_outputs (trace (fst (run (?w True)))) = [(utf16 ''A'', utf16 ''s1'')]"
    and d': "bound_variables (trace (fst (run (?w True)))) = [(utf16 ''A'', utf16 ''s1'')]"
    by (simp_all add: published_def)
  from on d have e: "exported (trace (fst (run (?w True)))) = [(utf16 ''A'', utf16 ''s1'')]"
    by simp
  from thr g3 have t: "export_threw (trace (fst (run ?v)))" by blast
  with thr have "exit_status (fst (run ?v), snd (run ?v)) = 1" by blast
  then have u: "exit_status (run ?v) = 1" by simp
  show ?thesis by (intro conjI a b b' c e d d' t u)
qed

text \<open>
  Claim C5 as stated fails. Take the references \<open>GITHUB_OUTPUT\<close> and \<open>B\<close>, the export flag
  true and the example toolkit. The first secret is exported under the name
  \<open>GITHUB_OUTPUT\<close>, so the \<open>setOutput\<close> call for \<open>B\<close> throws: \<open>B\<close> was fetched, but its output
  is not set, \<open>exportVariable\<close> is not called for it, and the run ends with status 1.
\<close>

theorem publish_policy_counterexample:
  "run (example Resolved ''2'' True [''GITHUB_OUTPUT'', ''B''] [Inr (utf16 ''s1''), Inr (utf16 ''s2'')])
     = (\<lparr>trace = [AxiosGet Resolved,
           AccessSecret \<lparr>output = utf16 ''GITHUB_OUTPUT''\<rparr> (utf16 ''utf8'') (Inr (utf16 ''s1'')),
           SetSecret (utf16 ''s1''),
           SetOutput (utf16 ''GITHUB_OUTPUT'') (utf16 ''s1''),
           ExportVariable (utf16 ''GITHUB_OUTPUT'') (utf16 ''s1''),
           AccessSecret \<lparr>output = utf16 ''B''\<rparr> (utf16 ''utf8'') (Inr (utf16 ''s2'')),
           SetSecret (utf16 ''s2''),
           SetOutput (utf16 ''B'') (utf16 ''s2''),
           SetFailed (failure_prefix @ utf16 ''Missing file at path: s1'')],
         exitCode = 1\<rparr>, Returned)
   \<and> read_inputs (example Resolved ''2'' True [''GITHUB_OUTPUT'', ''B'']
         [Inr (utf16 ''s1''), Inr (utf16 ''s2'')])
     = Inr \<lparr>minMaskLength = Integer 2, exportEnvironment = True, encoding = utf16 ''utf8'',
          client = 0, secretsRefs = [\<lparr>output = utf16 ''GITHUB_OUTPUT''\<rparr>, \<lparr>output = utf16 ''B''\<rparr>]\<rparr>
   \<and> fetched (trace (fst (run (example Resolved ''2'' True [''GITHUB_OUTPUT'', ''B'']
         [Inr (utf16 ''s1''), Inr (utf16 ''s2'')]))))
     = [(\<lparr>output = utf16 ''GITHUB_OUTPUT''\<rparr>, utf16 ''s1''), (\<lparr>output = utf16 ''B''\<rparr>, utf16 ''s2'')]
   \<and> exported (trace (fst (run (example Resolved ''2'' True [''GITHUB_OUTPUT'', ''B'']
         [Inr (utf16 ''s1''), Inr (utf16 ''s2'')]))))
     = [(utf16 ''GITHUB_OUTPUT'', utf16 ''s1'')]
   \<and> bound_outputs (trace (fst (run (example Resolved ''2'' True [''GITHUB_OUTPUT'', ''B'']
         [Inr (utf16 ''s1''), Inr (utf16 ''s2'')]))))
     = [(utf16 ''GITHUB_OUTPUT'', utf16 ''s1'')]
   \<and> exit_status (run (example Resolved ''2'' True [''GITHUB_OUTPUT'', ''B'']
         [Inr (utf16 ''s1''), Inr (utf16 ''s2'')])) = 1"
  by (simp add: example_simps exit_status_def bound_outputs_def output_threw_def)

subsection \<open>Errors in the inputs\<close>




subsection \<open>One reference after the other\<close>

text \<open>
  Claim C7. The calls of any run that read its inputs are the calls of the subscription
  check, then one complete cycle (request, registrations, output, export) for each of the
  first references of the parsed list, in the order of the list and each with the value its
  own request returned, and then one of four endings. Either nothing more: the run went
  through the whole list, or the subscription check ended it before the first request. Or
  the request for the next reference, which threw, and the failure report. Or the request
  for the next reference, the registrations and the \<open>setOutput\<close> call, which threw, and the
  failure report. Or, the export flag being true, the request for the next reference, the
  registrations, the \<open>setOutput\<close> call and the \<open>exportVariable\<close> call, which threw, and the
  failure report. So no request is made before the cycle of the reference before is
  complete, and none after a call that threw. The names of the \<open>setOutput\<close> calls are the
  output names of the first references in the order of the list, and a run that ends with
  status 0 has gone through the whole list.
\<close>

theorem sequential_processing:
  fixes w :: "('c, 'r, 't) world"
  assumes "run w = (s, c)" and "read_inputs w = Inr cfg"
  shows "\<exists>vs post. length vs \<le> length (secretsRefs cfg)
    \<and> trace s = preflight w
        @ concat (map (cycle (minMaskLength cfg) (exportEnvironment cfg) (encoding cfg))
            (zip (secretsRefs cfg) vs))
        @ post
    \<and> ((post = [] \<and> (forbidden (axios_get w) \<and> vs = [] \<or> length vs = length (secretsRefs cfg)))
       \<or> (\<exists>err. length vs < length (secretsRefs cfg)
            \<and> post = [AccessSecret (secretsRefs cfg ! length vs) (encoding cfg) (Inl err),
                      SetFailed (failure_prefix @ errorMessage w err)])
       \<or> (\<exists>v err. length vs < length (secretsRefs cfg)
            \<and> post = AccessSecret (secretsRefs cfg ! length vs) (encoding cfg) (Inr v)
                # map SetSecret (masked (minMaskLength cfg) v)
                @ [SetOutput (output (secretsRefs cfg ! length vs)) v,
                   SetFailed (failure_prefix @ errorMessage w err)])
       \<or> (\<exists>v err. length vs < length (secretsRefs cfg) \<and> exportEnvironment cfg
            \<and> post = AccessSecret (secretsRefs cfg ! length vs) (encoding cfg) (Inr v)
                # map SetSecret (masked (minMaskLength cfg) v)
                @ [SetOutput (output (secretsRefs cfg ! length vs)) v,
                   ExportVariable (output (secretsRefs cfg ! length vs)) v,
                   SetFailed (failure_prefix @ errorMessage w err)]))
    \<and> map fst (set_outputs (trace s))
        = map output (take (length (set_outputs (trace s))) (secretsRefs cfg))
    \<and> (exit_status (s, c) = 0 \<longrightarrow> length vs = length (secretsRefs cfg) \<and> post = [])"
proof -
  define m where "m = minMaskLength cfg"
  define e where "e = exportEnvironment cfg"
  define enc where "enc = encoding cfg"
  define refs where "refs = secretsRefs cfg"
  define names where "names \<longleftrightarrow> map fst (set_outputs (trace s))
        = map output (take (length (set_outputs (trace s))) refs)"
  define ending where "ending vs post \<longleftrightarrow>
      (post = [] \<and> (forbidden (axios_get w) \<and> vs = [] \<or> length vs = length refs))
       \<or> (\<exists>err. length vs < length refs
            \<and> post = [AccessSecret (refs ! length vs) enc (Inl err),
                      SetFailed (failure_prefix @ errorMessage w err)])
       \<or> (\<exists>v err. length vs < length refs
            \<and> post = AccessSecret (refs ! length vs) enc (Inr v)
                # map SetSecret (masked m v)
                @ [SetOutput (output (refs ! length vs)) v,
                   SetFailed (failure_prefix @ errorMessage w err)])
       \<or> (\<exists>v err. length vs < length refs \<and> e
            \<and> post = AccessSecret (refs ! length vs) enc (Inr v)
                # map SetSecret (masked m v)
                @ [SetOutput (output (refs ! length vs)) v,
                   ExportVariable (output (refs ! length vs)) v,
                   SetFailed (failure_prefix @ errorMessage w err)])"
    for vs :: "js_string list" and post
  note o = run_observed [OF assms]
  have "map fst (set_outputs (trace s)) = map output (map fst (fetched (trace s)))"
    by (simp add: o(2) published_def comp_def)
  also have "\<dots> = map output (take (length (set_outputs (trace s))) refs)"
    using o(1) by (simp add: o(2) refs_def)
  finally have names: names by (simp add: names_def)
  have goal: "\<exists>vs post. length vs \<le> length refs
      \<and> trace s = preflight w @ concat (map (cycle m e enc) (zip refs vs)) @ post
      \<and> ending vs post \<and> names
      \<and> (exit_status (s, c) = 0 \<longrightarrow> length vs = length refs \<and> post = [])"
    if "length vs \<le> length refs"
      and "trace s = preflight w @ concat (map (cycle m e enc) (zip refs vs)) @ post"
      and "ending vs post"
      and "exit_status (s, c) = 0 \<longrightarrow> length vs = length refs \<and> post = []"
    for vs post
    by (rule exI [of _ vs], rule exI [of _ post]) (intro conjI that names)
  have "\<exists>vs post. length vs \<le> length refs
      \<and> trace s = preflight w @ concat (map (cycle m e enc) (zip refs vs)) @ post
      \<and> ending vs post \<and> names
      \<and> (exit_status (s, c) = 0 \<longrightarrow> length vs = length refs \<and> post = [])"
  proof (cases "forbidden (axios_get w)")
    case True
    from assms(1) have tr: "trace s = preflight w" and c: "c = Exited 1"
      by (auto simp add: run_forbidden [OF True] preflight_forbidden [OF True])
    show ?thesis
      by (rule goal [of "[]" "[]"]) (simp_all add: tr c True ending_def exit_status_def)
  next
    case False
    from assms False show ?thesis
    proof (cases rule: run_cases)
      case (complete vs)
      show ?thesis
        by (rule goal [of vs "[]"])
          (simp_all add: complete ending_def m_def e_def enc_def refs_def)
    next
      case (at_fetch vs err)
      show ?thesis
        by (rule goal [of vs "[AccessSecret (refs ! length vs) enc (Inl err),
                      SetFailed (failure_prefix @ errorMessage w err)]"])
          (use at_fetch in \<open>simp_all add: ending_def m_def e_def enc_def refs_def exit_status_def\<close>)
    next
      case (at_output vs err v)
      show ?thesis
        by (rule goal [of vs "AccessSecret (refs ! length vs) enc (Inr v)
                # map SetSecret (masked m v)
                @ [SetOutput (output (refs ! length vs)) v,
                   SetFailed (failure_prefix @ errorMessage w err)]"])
          (use at_output in \<open>auto simp add: ending_def m_def e_def enc_def refs_def exit_status_def
              cycle_def\<close>)
    next
      case (at_export vs err v)
      show ?thesis
        by (rule goal [of vs "AccessSecret (refs ! length vs) enc (Inr v)
                # map SetSecret (masked m v)
                @ [SetOutput (output (refs ! length vs)) v,
                   ExportVariable (output (refs ! length vs)) v,
                   SetFailed (failure_prefix @ errorMessage w err)]"])
          (use at_export in \<open>auto simp add: ending_def m_def e_def enc_def refs_def exit_status_def
              cycle_def\<close>)
    qed
  qed
  then show ?thesis
    unfolding ending_def names_def m_def e_def enc_def refs_def .
qed

theorem sequential_processing_witness:
  "read_inputs (example (Rejected False None) ''1'' False [''A'', ''B''] [Inr (utf16 ''s1''), Inr (utf16 ''s2'')])
     = Inr \<lparr>minMaskLength = Integer 1, exportEnvironment = False, encoding = utf16 ''utf8'',
          client = 0, secretsRefs = [\<lparr>output = utf16 ''A''\<rparr>, \<lparr>output = utf16 ''B''\<rparr>]\<rparr>
   \<and> run (example (Rejected False None) ''1'' False [''A'', ''B''] [Inr (utf16 ''s1''), Inr (utf16 ''s2'')])
     = (\<lparr>trace = [AxiosGet (Rejected False None),
            Info (utf16 ''Timeout or API not reachable. Continuing to next step.''),
            AccessSecret \<lparr>output = utf16 ''A''\<rparr> (utf16 ''utf8'') (Inr (utf16 ''s1'')),
            SetSecret (utf16 ''s1''),
            SetOutput (utf16 ''A'') (utf16 ''s1''),
            AccessSecret \<lparr>output = utf16 ''B''\<rparr> (utf16 ''utf8'') (Inr (utf16 ''s2'')),
            SetSecret (utf16 ''s2''),
            SetOutput (utf16 ''B'') (utf16 ''s2'')],
         exitCode = 0\<rparr>, Returned)
   \<and> (\<exists>vs post. length vs \<le> length [\<lparr>output = utf16 ''A''\<rparr>, \<lparr>output = utf16 ''B''\<rparr>]
      \<and> [AxiosGet (Rejected False None),
            Info (utf16 ''Timeout or API not reachable. Continuing to next step.''),
            AccessSecret \<lparr>output = utf16 ''A''\<rparr> (utf16 ''utf8'') (Inr (utf16 ''s1'')),
            SetSecret (utf16 ''s1''),
            SetOutput (utf16 ''A'') (utf16 ''s1''),
            AccessSecret \<lparr>output = utf16 ''B''\<rparr> (utf16 ''utf8'') (Inr (utf16 ''s2'')),
            SetSecret (utf16 ''s2''),
            SetOutput (utf16 ''B'') (utf16 ''s2'')]
         = [AxiosGet (Rejected False None),
            Info (utf16 ''Timeout or API not reachable. Continuing to next step.'')]
           @ concat (map (cycle (Integer 1) False (utf16 ''utf8''))
               (zip [\<lparr>output = utf16 ''A''\<rparr>, \<lparr>output = utf16 ''B''\<rparr>] vs))
           @ post
      \<and> post = []
      \<and> length vs = 2)"
proof -
  let ?w = "example (Rejected False None) ''1'' False [''A'', ''B''] [Inr (utf16 ''s1''), Inr (utf16 ''s2'')]"
  let ?t = "[AxiosGet (Rejected False None),
            Info (utf16 ''Timeout or API not reachable. Continuing to next step.''),
            AccessSecret \<lparr>output = utf16 ''A''\<rparr> (utf16 ''utf8'') (Inr (utf16 ''s1'')),
            SetSecret (utf16 ''s1''),
            SetOutput (utf16 ''A'') (utf16 ''s1''),
            AccessSecret \<lparr>output = utf16 ''B''\<rparr> (utf16 ''utf8'') (Inr (utf16 ''s2'')),
            SetSecret (utf16 ''s2''),
            SetOutput (utf16 ''B'') (utf16 ''s2'')] :: unit event list"
  let ?s = "\<lparr>trace = ?t, exitCode = 0\<rparr> :: unit state"
  let ?cfg = "\<lparr>minMaskLength = Integer 1, exportEnvironment = False, encoding = utf16 ''utf8'',
          client = 0::nat, secretsRefs = [\<lparr>output = utf16 ''A''\<rparr>, \<lparr>output = utf16 ''B''\<rparr>]\<rparr>"
  have h1: "run ?w = (?s, Returned)" by (simp add: example_simps)
  have h2: "read_inputs ?w = Inr ?cfg" by (simp add: example_simps)
  have p: "preflight ?w = [AxiosGet (Rejected False None),
            Info (utf16 ''Timeout or API not reachable. Continuing to next step.'')]"
    by (simp add: preflight_def example_simps)
  have e: "exit_status (?s, Returned) = 0" by (simp add: exit_status_def)
  from sequential_processing [OF h1 h2] obtain vs post
    where len: "length vs \<le> length (secretsRefs ?cfg)"
      and tr: "trace ?s = preflight ?w
        @ concat (map (cycle (minMaskLength ?cfg) (exportEnvironment ?cfg) (encoding ?cfg))
            (zip (secretsRefs ?cfg) vs))
        @ post"
      and ex: "exit_status (?s, Returned) = 0 \<longrightarrow> length vs = length (secretsRefs ?cfg) \<and> post = []"
    by (elim exE conjE) (rule that)
  from ex e have fin: "length vs = 2" "post = []" by simp_all
  have "length vs \<le> length [\<lparr>output = utf16 ''A''\<rparr>, \<lparr>output = utf16 ''B''\<rparr>]
      \<and> ?t = [AxiosGet (Rejected False None),
            Info (utf16 ''Timeout or API not reachable. Continuing to next step.'')]
           @ concat (map (cycle (Integer 1) False (utf16 ''utf8''))
               (zip [\<lparr>output = utf16 ''A''\<rparr>, \<lparr>output = utf16 ''B''\<rparr>] vs))
           @ post
      \<and> post = []
      \<and> length vs = 2"
    using len tr fin by (simp add: p)
  then have "\<exists>vs post. length vs \<le> length [\<lparr>output = utf16 ''A''\<rparr>, \<lparr>output = utf16 ''B''\<rparr>]
      \<and> ?t = [AxiosGet (Rejected False None),
            Info (utf16 ''Timeout or API not reachable. Continuing to next step.'')]
           @ concat (map (cycle (Integer 1) False (utf16 ''utf8''))
               (zip [\<lparr>output = utf16 ''A''\<rparr>, \<lparr>output = utf16 ''B''\<rparr>] vs))
           @ post
      \<and> post = []
      \<and> length vs = 2"
    by (intro exI)
  then show ?thesis by (intro conjI h1 h2)
qed

subsection \<open>A minimum mask length that does not parse\<close>

text \<open>
  Claim C8. \<open>parseInt\<close> of the empty string is \<open>NaN\<close>. When the text of \<open>min_mask_length\<close>
  parses to \<open>NaN\<close>, the run registers nothing with \<open>setSecret\<close>, and it is otherwise the run
  the same world would have with any other text in that input: the same calls in the same
  order once the \<open>setSecret\<close> calls are left out, hence the same outputs and exported
  variables, the same way of ending and the same exit code. The run does not fail on
  account of the text.
\<close>

theorem unparsable_min_mask_length:
  fixes w :: "('c, 'r, 't) world"
  assumes "getInput w ''min_mask_length'' False = Inr str" and "parseInt str = NaN"
  shows "parseInt [] = NaN
    \<and> registered (trace (fst (run w))) = []
    \<and> trace (fst (run w))
        = filter (\<lambda>ev. \<not> is_setSecret ev) (trace (fst (run (with_min_mask_length str' w))))
    \<and> set_outputs (trace (fst (run w))) = set_outputs (trace (fst (run (with_min_mask_length str' w))))
    \<and> exported (trace (fst (run w))) = exported (trace (fst (run (with_min_mask_length str' w))))
    \<and> snd (run w) = snd (run (with_min_mask_length str' w))
    \<and> exitCode (fst (run w)) = exitCode (fst (run (with_min_mask_length str' w)))"
proof -
  let ?w' = "with_min_mask_length str' w"
  let ?keep = "filter (\<lambda>ev. \<not> is_setSecret ev) :: 'r event list \<Rightarrow> 'r event list"
  have same: "axios_get ?w' = axios_get w" "errorMessage ?w' = errorMessage w"
    "accessSecret ?w' = accessSecret w" "core_setOutput ?w' = core_setOutput w"
    "core_exportVariable ?w' = core_exportVariable w" "core_state ?w' = core_state w"
    by (simp_all add: with_min_mask_length_def)
  have main: "trace (fst (run w)) = ?keep (trace (fst (run ?w')))
    \<and> snd (run w) = snd (run ?w') \<and> exitCode (fst (run w)) = exitCode (fst (run ?w'))"
  proof (cases "forbidden (axios_get w)")
    case True
    then have "forbidden (axios_get ?w')" by (simp add: same)
    from run_forbidden [OF True] run_forbidden [OF this] show ?thesis by (simp add: same)
  next
    case False
    then have ok': "\<not> forbidden (axios_get ?w')" by (simp add: same)
    show ?thesis
    proof (cases "read_inputs w")
      case (Inl err)
      then have "read_inputs ?w' = Inl err" by (simp add: read_inputs_with [OF assms(1)])
      from run_config_error [OF False Inl] run_config_error [OF ok' this]
      show ?thesis by (simp add: same filter_preflight)
    next
      case (Inr cfg)
      let ?cfg' = "cfg\<lparr>minMaskLength := parseInt str'\<rparr>"
      have cfg': "read_inputs ?w' = Inr ?cfg'" by (simp add: read_inputs_with [OF assms(1)] Inr)
      have nan: "minMaskLength cfg = NaN"
        using read_inputs_minMaskLength [OF assms(1) Inr] assms(2) by simp
      obtain evs res where L': "loop_events w (parseInt str') (exportEnvironment cfg)
          (encoding cfg) (secretsRefs cfg) (client cfg) (core_state w) = (evs, res)"
        by (cases "loop_events w (parseInt str') (exportEnvironment cfg)
          (encoding cfg) (secretsRefs cfg) (client cfg) (core_state w)")
      have L'': "loop_events ?w' (minMaskLength ?cfg') (exportEnvironment ?cfg')
          (encoding ?cfg') (secretsRefs ?cfg') (client ?cfg') (core_state ?w') = (evs, res)"
        using L' by (simp add: loop_events_same_store [OF same(3,4,5)] same(6))
      have L: "loop_events w (minMaskLength cfg) (exportEnvironment cfg)
          (encoding cfg) (secretsRefs cfg) (client cfg) (core_state w) = (?keep evs, res)"
        using loop_events_NaN [of w "exportEnvironment cfg" "encoding cfg" "secretsRefs cfg"
            "client cfg" "core_state w" "parseInt str'"] L'
        by (simp add: nan)
      from run_eq [OF False Inr L] run_eq [OF ok' cfg' L'']
      show ?thesis by (cases res) (simp_all add: same filter_preflight)
    qed
  qed
  have "parseInt [] = NaN" by (simp add: parseInt_def)
  with main show ?thesis
    by (simp add: registered_filter set_outputs_filter exported_filter)
qed

theorem unparsable_min_mask_length_witness:
  "parseInt (utf16 ''abc'') = NaN
   \<and> trace (fst (run (with_min_mask_length (utf16 ''1'')
         (example Resolved ''abc'' True [''A''] [Inr (utf16 ''a\<newline>bb'')]))))
     = [AxiosGet Resolved,
        AccessSecret \<lparr>output = utf16 ''A''\<rparr> (utf16 ''utf8'') (Inr (utf16 ''a\<newline>bb'')),
        SetSecret (utf16 ''a''), SetSecret (utf16 ''bb''),
        SetOutput (utf16 ''A'') (utf16 ''a\<newline>bb''),
        ExportVariable (utf16 ''A'') (utf16 ''a\<newline>bb'')]
   \<and> registered (trace (fst (run (example Resolved ''abc'' True [''A''] [Inr (utf16 ''a\<newline>bb'')])))) = []
   \<and> trace (fst (run (example Resolved ''abc'' True [''A''] [Inr (utf16 ''a\<newline>bb'')])))
     = [AxiosGet Resolved,
        AccessSecret \<lparr>output = utf16 ''A''\<rparr> (utf16 ''utf8'') (Inr (utf16 ''a\<newline>bb'')),
        SetOutput (utf16 ''A'') (utf16 ''a\<newline>bb''),
        ExportVariable (utf16 ''A'') (utf16 ''a\<newline>bb'')]
   \<and> snd (run (example Resolved ''abc'' True [''A''] [Inr (utf16 ''a\<newline>bb'')])) = Returned
   \<and> exitCode (fst (run (example Resolved ''abc'' True [''A''] [Inr (utf16 ''a\<newline>bb'')]))) = 0"
proof -
  let ?w = "example Resolved ''abc'' True [''A''] [Inr (utf16 ''a\<newline>bb'')]"
  have h1: "getInput ?w ''min_mask_length'' False = Inr (utf16 ''abc'')" by (simp add: example_def)
  have h2: "parseInt (utf16 ''abc'') = NaN" by (simp add: example_simps)
  have valid: "run (with_min_mask_length (utf16 ''1'') ?w)
     = (\<lparr>trace = [AxiosGet Resolved,
        AccessSecret \<lparr>output = utf16 ''A''\<rparr> (utf16 ''utf8'') (Inr (utf16 ''a\<newline>bb'')),
        SetSecret (utf16 ''a''), SetSecret (utf16 ''bb''),
        SetOutput (utf16 ''A'') (utf16 ''a\<newline>bb''),
        ExportVariable (utf16 ''A'') (utf16 ''a\<newline>bb'')], exitCode = 0\<rparr>, Returned)"
    by (simp add: example_simps with_min_mask_length_def)
  note r = unparsable_min_mask_length [OF h1 h2, of "utf16 ''1''", unfolded valid]
  from r have a: "registered (trace (fst (run ?w))) = []"
    and b: "trace (fst (run ?w)) = [AxiosGet Resolved,
        AccessSecret \<lparr>output = utf16 ''A''\<rparr> (utf16 ''utf8'') (Inr (utf16 ''a\<newline>bb'')),
        SetOutput (utf16 ''A'') (utf16 ''a\<newline>bb''),
        ExportVariable (utf16 ''A'') (utf16 ''a\<newline>bb'')]"
    and c: "snd (run ?w) = Returned"
    and d: "exitCode (fst (run ?w)) = 0"
    by simp_all
  have v: "trace (fst (run (with_min_mask_length (utf16 ''1'') ?w)))
     = [AxiosGet Resolved,
        AccessSecret \<lparr>output = utf16 ''A''\<rparr> (utf16 ''utf8'') (Inr (utf16 ''a\<newline>bb'')),
        SetSecret (utf16 ''a''), SetSecret (utf16 ''bb''),
        SetOutput (utf16 ''A'') (utf16 ''a\<newline>bb''),
        ExportVariable (utf16 ''A'') (utf16 ''a\<newline>bb'')]"
    by (simp add: valid)
  show ?thesis by (intro conjI h2 v a b c d)
qed

subsection \<open>References with the same output name\<close>

text \<open>
  Claim C9, as amended. In any run that read its inputs, \<open>setOutput\<close> is called once for
  every reference fetched, in the order of the parsed list, and all these calls returned
  but, at most, the last, which threw exactly when the toolkit's \<open>setOutput\<close> threw in the
  loop. On the reading that a call of \<open>setOutput\<close> that returns binds the name to the
  value in place of what the name was bound to, and that one that throws binds nothing:
  for a reference whose \<open>setOutput\<close> call returned and whose output name no later
  reference with a call that returned shares, the runner's outputs after the run bind
  that name to the value fetched for this reference, whatever earlier references with the
  same name were bound to. The last write that returned wins. In a run that ends with
  status 0 the call returned for every reference of the list, so the value published
  under a name is then that of the last reference of the list with that name.
\<close>

theorem last_returned_write_wins:
  fixes w :: "('c, 'r, 't) world"
  assumes "run w = (s, c)" and "read_inputs w = Inr cfg"
  shows "set_outputs (trace s) = map published (fetched (trace s))
    \<and> map fst (fetched (trace s)) = take (length (fetched (trace s))) (secretsRefs cfg)
    \<and> output_threw (trace s) =
        (\<not> forbidden (axios_get w) \<and>
         thrown_by w (exportEnvironment cfg) (encoding cfg) (secretsRefs cfg) (client cfg)
           (core_state w) = Some BySetOutput)
    \<and> bound_outputs (trace s)
        = map published (take (length (bound_outputs (trace s))) (fetched (trace s)))
    \<and> (\<forall>j < length (bound_outputs (trace s)).
         (\<forall>k. j < k \<and> k < length (bound_outputs (trace s))
            \<longrightarrow> output (secretsRefs cfg ! k) \<noteq> output (secretsRefs cfg ! j))
         \<longrightarrow> outputs_after (trace s) (output (secretsRefs cfg ! j))
               = Some (snd (fetched (trace s) ! j)))
    \<and> (exit_status (s, c) = 0 \<longrightarrow> length (bound_outputs (trace s)) = length (secretsRefs cfg))"
proof -
  note o = run_observed [OF assms]
  define fs where "fs = fetched (trace s)"
  define bo where "bo = bound_outputs (trace s)"
  define refs where "refs = secretsRefs cfg"
  have so: "set_outputs (trace s) = map published fs" by (simp add: fs_def o(2))
  have rf: "map fst fs = take (length fs) refs" using o(1) by (simp add: fs_def refs_def)
  have "bo = take (length bo) (set_outputs (trace s))"
    by (simp add: bo_def bound_outputs_def butlast_conv_take)
  then have bo: "bo = map published (take (length bo) fs)"
    by (simp add: so take_map)
  have len: "length bo \<le> length fs"
    by (simp add: bo_def bound_outputs_def so)
  have at: "bo ! j = published (fs ! j)" "fst (fs ! j) = refs ! j" if "j < length bo" for j
  proof -
    from that len have j: "j < length fs" by simp
    have "bo ! j = map published (take (length bo) fs) ! j" using bo by simp
    also have "\<dots> = published (fs ! j)" using that j by simp
    finally show "bo ! j = published (fs ! j)" .
    have "fst (fs ! j) = map fst fs ! j" using j by simp
    also have "\<dots> = refs ! j" using j by (simp add: rf)
    finally show "fst (fs ! j) = refs ! j" .
  qed
  have last: "outputs_after (trace s) (output (refs ! j)) = Some (snd (fs ! j))"
    if j: "j < length bo"
      and later: "\<forall>k. j < k \<and> k < length bo \<longrightarrow> output (refs ! k) \<noteq> output (refs ! j)"
    for j
  proof -
    have "foldl bind_output Map.empty bo (fst (bo ! j)) = Some (snd (bo ! j))"
    proof (rule foldl_upd_last [OF j], intro allI impI)
      fix k assume k: "j < k \<and> k < length bo"
      with later have "output (refs ! k) \<noteq> output (refs ! j)" by blast
      with k j show "fst (bo ! k) \<noteq> fst (bo ! j)" by (simp add: at published_def)
    qed
    with j show ?thesis by (simp add: outputs_after_def bo_def [symmetric] at published_def)
  qed
  have fin: "exit_status (s, c) = 0 \<longrightarrow> length bo = length refs"
  proof
    assume "exit_status (s, c) = 0"
    with o(6) have "map fst fs = refs" "\<not> output_threw (trace s)" by (simp_all add: fs_def refs_def)
    then have "length bo = length (map published fs)" "length (map fst fs) = length refs"
      by (simp_all add: bo_def bound_outputs_def so)
    then show "length bo = length refs" by simp
  qed
  from so rf o(4) bo last fin show ?thesis
    unfolding fs_def bo_def refs_def by blast
qed

theorem last_returned_write_wins_witness:
  "set_outputs (trace (fst (run (example Resolved ''9'' False [''A'', ''B'', ''A'']
       [Inr (utf16 ''s1''), Inr (utf16 ''s2''), Inr (utf16 ''s3'')]))))
     = [(utf16 ''A'', utf16 ''s1''), (utf16 ''B'', utf16 ''s2''), (utf16 ''A'', utf16 ''s3'')]
   \<and> length (bound_outputs (trace (fst (run (example Resolved ''9'' False [''A'', ''B'', ''A'']
       [Inr (utf16 ''s1''), Inr (utf16 ''s2''), Inr (utf16 ''s3'')]))))) = 3
   \<and> outputs_after (trace (fst (run (example Resolved ''9'' False [''A'', ''B'', ''A'']
       [Inr (utf16 ''s1''), Inr (utf16 ''s2''), Inr (utf16 ''s3'')])))) (utf16 ''A'')
     = Some (utf16 ''s3'')
   \<and> outputs_after (trace (fst (run (example Resolved ''9'' False [''A'', ''B'', ''A'']
       [Inr (utf16 ''s1''), Inr (utf16 ''s2''), Inr (utf16 ''s3'')])))) (utf16 ''B'')
     = Some (utf16 ''s2'')
   \<and> outputs_after (trace (fst (run (example Resolved ''9'' False [''A'', ''B'', ''A'']
       [Inr (utf16 ''s3''), Inr (utf16 ''s2''), Inr (utf16 ''s1'')])))) (utf16 ''A'')
     = Some (utf16 ''s1'')"
proof -
  let ?w = "example Resolved ''9'' False [''A'', ''B'', ''A'']
       [Inr (utf16 ''s1''), Inr (utf16 ''s2''), Inr (utf16 ''s3'')]"
  let ?w' = "example Resolved ''9'' False [''A'', ''B'', ''A'']
       [Inr (utf16 ''s3''), Inr (utf16 ''s2''), Inr (utf16 ''s1'')]"
  let ?cfg = "\<lparr>minMaskLength = Integer 9, exportEnvironment = False, encoding = utf16 ''utf8'',
      client = 0::nat, secretsRefs = [\<lparr>output = utf16 ''A''\<rparr>, \<lparr>output = utf16 ''B''\<rparr>,
        \<lparr>output = utf16 ''A''\<rparr>]\<rparr>"
  have h1: "run ?w = (fst (run ?w), snd (run ?w))" by simp
  have h2: "read_inputs ?w = Inr ?cfg" by (simp add: example_simps)
  have h1': "run ?w' = (fst (run ?w'), snd (run ?w'))" by simp
  have h2': "read_inputs ?w' = Inr ?cfg" by (simp add: example_simps)
  have f: "fetched (trace (fst (run ?w)))
      = [(\<lparr>output = utf16 ''A''\<rparr>, utf16 ''s1''), (\<lparr>output = utf16 ''B''\<rparr>, utf16 ''s2''),
         (\<lparr>output = utf16 ''A''\<rparr>, utf16 ''s3'')]"
    by (simp add: example_simps)
  have f': "fetched (trace (fst (run ?w')))
      = [(\<lparr>output = utf16 ''A''\<rparr>, utf16 ''s3''), (\<lparr>output = utf16 ''B''\<rparr>, utf16 ''s2''),
         (\<lparr>output = utf16 ''A''\<rparr>, utf16 ''s1'')]"
    by (simp add: example_simps)
  have x: "exit_status (fst (run ?w), snd (run ?w)) = 0"
    by (simp add: example_simps exit_status_def)
  have x': "exit_status (fst (run ?w'), snd (run ?w')) = 0"
    by (simp add: example_simps exit_status_def)
  note r = last_returned_write_wins [OF h1 h2, unfolded f]
  note r' = last_returned_write_wins [OF h1' h2', unfolded f']
  from r have a: "set_outputs (trace (fst (run ?w)))
      = [(utf16 ''A'', utf16 ''s1''), (utf16 ''B'', utf16 ''s2''), (utf16 ''A'', utf16 ''s3'')]"
    by (simp add: published_def)
  from r x have n: "length (bound_outputs (trace (fst (run ?w)))) = 3" by simp
  from r' x' have n': "length (bound_outputs (trace (fst (run ?w')))) = 3" by simp
  note q = r [THEN conjunct2, THEN conjunct2, THEN conjunct2, THEN conjunct2, THEN conjunct1,
      unfolded n]
  note q' = r' [THEN conjunct2, THEN conjunct2, THEN conjunct2, THEN conjunct2, THEN conjunct1,
      unfolded n']
  have n2: "(2::nat) < 3" and n1: "(1::nat) < 3" by simp_all
  have p2: "\<forall>k. 2 < k \<and> k < 3 \<longrightarrow> output (secretsRefs ?cfg ! k) \<noteq> output (secretsRefs ?cfg ! 2)"
    by auto
  have p1: "\<forall>k. 1 < k \<and> k < 3 \<longrightarrow> output (secretsRefs ?cfg ! k) \<noteq> output (secretsRefs ?cfg ! 1)"
  proof (intro allI impI)
    fix k :: nat assume "1 < k \<and> k < 3"
    then have "k = 2" by simp
    then show "output (secretsRefs ?cfg ! k) \<noteq> output (secretsRefs ?cfg ! 1)"
      by (simp add: utf16_def)
  qed
  from q [THEN spec, THEN mp, THEN mp, OF n2 p2]
  have b: "outputs_after (trace (fst (run ?w))) (utf16 ''A'') = Some (utf16 ''s3'')"
    by simp
  from q [THEN spec, THEN mp, THEN mp, OF n1 p1]
  have c: "outputs_after (trace (fst (run ?w))) (utf16 ''B'') = Some (utf16 ''s2'')"
    by simp
  from q' [THEN spec, THEN mp, THEN mp, OF n2 p2]
  have d: "outputs_after (trace (fst (run ?w'))) (utf16 ''A'') = Some (utf16 ''s1'')"
    by simp
  show ?thesis by (intro conjI a n b c d)
qed

text \<open>
  Claim C9 as stated fails. Take the references \<open>A\<close>, \<open>GITHUB_OUTPUT\<close> and \<open>A\<close>, the export
  flag true and the example toolkit. All three secrets are fetched and \<open>setOutput\<close>
  is called once for each reference, in the order of the list; but the second secret was
  exported under the name \<open>GITHUB_OUTPUT\<close>, so the third call throws, and the output \<open>A\<close>
  keeps the value of the first reference, not that of the last.
\<close>

theorem last_write_counterexample:
  "run (example Resolved ''2'' True [''A'', ''GITHUB_OUTPUT'', ''A'']
       [Inr (utf16 ''s1''), Inr (utf16 ''s2''), Inr (utf16 ''s3'')])
     = (\<lparr>trace = [AxiosGet Resolved,
           AccessSecret \<lparr>output = utf16 ''A''\<rparr> (utf16 ''utf8'') (Inr (utf16 ''s1'')),
           SetSecret (utf16 ''s1''),
           SetOutput (utf16 ''A'') (utf16 ''s1''),
           ExportVariable (utf16 ''A'') (utf16 ''s1''),
           AccessSecret \<lparr>output = utf16 ''GITHUB_OUTPUT''\<rparr> (utf16 ''utf8'') (Inr (utf16 ''s2'')),
           SetSecret (utf16 ''s2''),
           SetOutput (utf16 ''GITHUB_OUTPUT'') (utf16 ''s2''),
           ExportVariable (utf16 ''GITHUB_OUTPUT'') (utf16 ''s2''),
           AccessSecret \<lparr>output = utf16 ''A''\<rparr> (utf16 ''utf8'') (Inr (utf16 ''s3'')),
           SetSecret (utf16 ''s3''),
           SetOutput (utf16 ''A'') (utf16 ''s3''),
           SetFailed (failure_prefix @ utf16 ''Missing file at path: s2'')],
         exitCode = 1\<rparr>, Returned)
   \<and> set_outputs (trace (fst (run (example Resolved ''2'' True [''A'', ''GITHUB_OUTPUT'', ''A'']
       [Inr (utf16 ''s1''), Inr (utf16 ''s2''), Inr (utf16 ''s3'')]))))
     = [(utf16 ''A'', utf16 ''s1''), (utf16 ''GITHUB_OUTPUT'', utf16 ''s2''),
        (utf16 ''A'', utf16 ''s3'')]
   \<and> bound_outputs (trace (fst (run (example Resolved ''2'' True [''A'', ''GITHUB_OUTPUT'', ''A'']
       [Inr (utf16 ''s1''), Inr (utf16 ''s2''), Inr (utf16 ''s3'')]))))
     = [(utf16 ''A'', utf16 ''s1''), (utf16 ''GITHUB_OUTPUT'', utf16 ''s2'')]
   \<and> outputs_after (trace (fst (run (example Resolved ''2'' True [''A'', ''GITHUB_OUTPUT'', ''A'']
       [Inr (utf16 ''s1''), Inr (utf16 ''s2''), Inr (utf16 ''s3'')])))) (utf16 ''A'')
     = Some (utf16 ''s1'')
   \<and> utf16 ''s1'' \<noteq> utf16 ''s3''"
  by (simp add: example_simps bound_outputs_def output_threw_def outputs_after_def bind_output_def)

subsection \<open>Refused by the subscription check\<close>

text \<open>
  Claim C10. When the subscription request is rejected with an HTTP 403 response, the run
  ends inside \<open>validateSubscription\<close>: the state of the process at its end is the state
  \<open>validateSubscription\<close> left, the process exits with status 1 by \<open>process.exit\<close> and
  \<open>run\<close> does not return. The calls made are the request and the error line pointing to
  support; there is no \<open>setFailed\<close> call, so no message with the failure prefix.
\<close>

theorem forbidden_exits_in_preflight:
  fixes w :: "('c, 'r, 't) world"
  assumes "axios_get w = Rejected True (Some 403)" and "run w = (s, c)"
  shows "validateSubscription w initial = (s, Exit 1)
    \<and> c = Exited 1
    \<and> exit_status (s, c) = 1
    \<and> trace s = [AxiosGet (Rejected True (Some 403)),
         ErrorLog (utf16 ''Subscription is not valid. Reach out to support@stepsecurity.io'')]
    \<and> (\<forall>msg. SetFailed msg \<notin> set (trace s))"
proof -
  from assms(1) have f: "forbidden (axios_get w)" by (simp add: forbidden_def)
  from run_forbidden [OF f] assms have s: "s = \<lparr>trace = [AxiosGet (Rejected True (Some 403)),
         ErrorLog (utf16 ''Subscription is not valid. Reach out to support@stepsecurity.io'')],
         exitCode = 0\<rparr>" and c: "c = Exited 1"
    by simp_all
  have "validateSubscription w initial = (s, Exit 1)"
    using validate_forbidden [OF f, of initial] assms(1) by (simp add: s initial_def)
  then show ?thesis by (simp add: s c exit_status_def)
qed

theorem forbidden_exits_in_preflight_witness:
  "validateSubscription (example (Rejected True (Some 403)) ''2'' True [''A''] [Inr (utf16 ''s1'')]) initial
     = (fst (run (example (Rejected True (Some 403)) ''2'' True [''A''] [Inr (utf16 ''s1'')])), Exit 1)
   \<and> snd (run (example (Rejected True (Some 403)) ''2'' True [''A''] [Inr (utf16 ''s1'')])) = Exited 1
   \<and> exit_status (run (example (Rejected True (Some 403)) ''2'' True [''A''] [Inr (utf16 ''s1'')])) = 1
   \<and> trace (fst (run (example (Rejected True (Some 403)) ''2'' True [''A''] [Inr (utf16 ''s1'')])))
       = [AxiosGet (Rejected True (Some 403)),
          ErrorLog (utf16 ''Subscription is not valid. Reach out to support@stepsecurity.io'')]"
proof -
  let ?w = "example (Rejected True (Some 403)) ''2'' True [''A''] [Inr (utf16 ''s1'')]"
  have h1: "axios_get ?w = Rejected True (Some 403)" by (simp add: example_def)
  have h2: "run ?w = (fst (run ?w), snd (run ?w))" by simp
  note r = forbidden_exits_in_preflight [OF h1 h2]
  note a = r [THEN conjunct1]
  note b = r [THEN conjunct2, THEN conjunct1]
  note c = r [THEN conjunct2, THEN conjunct2, THEN conjunct1]
  note d = r [THEN conjunct2, THEN conjunct2, THEN conjunct2, THEN conjunct1]
  from c have c': "exit_status (run ?w) = 1" by simp
  show ?thesis by (intro conjI a b c' d)
qed

end
